theory Spec2Isabelle
  imports Complex_Main "HOL-Library.Signed_Division"
begin

section \<open>The ddafa reconstruction pipeline: filter kernels, stages and driver\<close>

text \<open>
  Conventions of the embedding.
  \<^item> Single-precision values (\<open>float\<close>) are modelled as \<open>real\<close>: the arithmetic is
    exact, rounding, infinities and NaN are not part of the model. Where the source
    divides, the statements below keep the divisor away from zero.
  \<^item> A linear buffer is a list; a pitched 2-D buffer is a list of rows, row \<open>y\<close> being the
    elements the source reaches through \<open>base + y * pitch\<close>. Every access is checked: an
    access outside the extent of the buffer is undefined behaviour in the source and
    \<open>None\<close> here.
  \<^item> A data member \<open>name_\<close> of the source is written \<open>name_m\<close>: a constant's name cannot
    end in an underscore.
  \<^item> A kernel is the function of one thread: it takes the thread's coordinates and the
    buffer it writes, and returns the buffer after that thread. A launch runs the kernel
    once for every thread of the grid.
\<close>

subsection \<open>Checked memory\<close>

definition load :: "'a list \<Rightarrow> nat \<Rightarrow> 'a option" where
  "load buf i = (if i < length buf then Some (buf ! i) else None)"

definition store :: "'a list \<Rightarrow> nat \<Rightarrow> 'a \<Rightarrow> 'a list option" where
  "store buf i v = (if i < length buf then Some (buf[i := v]) else None)"

definition load_2D :: "'a list list \<Rightarrow> nat \<Rightarrow> nat \<Rightarrow> 'a option" where
  "load_2D buf row_index i = (case load buf row_index of None \<Rightarrow> None | Some row \<Rightarrow> load row i)"

definition store_2D :: "'a list list \<Rightarrow> nat \<Rightarrow> nat \<Rightarrow> 'a \<Rightarrow> 'a list list option" where
  "store_2D buf row_index i v =
     (case load buf row_index of
        None \<Rightarrow> None
      | Some row \<Rightarrow> (case store row i v of None \<Rightarrow> None | Some row' \<Rightarrow> store buf row_index row'))"

subsection \<open>Kernel launches\<close>

text \<open>
  \<open>ddrf::cuda::launch\<close> starts one thread per grid coordinate. The threads of the kernels
  below touch pairwise different elements, so running them one after the other, in any
  order, gives the result of the launch. A thread whose access is undefined makes the
  launch undefined.
\<close>

fun run_threads :: "('t \<Rightarrow> 's \<Rightarrow> 's option) \<Rightarrow> 't list \<Rightarrow> 's \<Rightarrow> 's option" where
  "run_threads thread [] s = Some s"
| "run_threads thread (t # ts) s =
     (case thread t s of None \<Rightarrow> None | Some s' \<Rightarrow> run_threads thread ts s')"

definition launch_1D :: "nat \<Rightarrow> (nat \<Rightarrow> 's \<Rightarrow> 's option) \<Rightarrow> 's \<Rightarrow> 's option" where
  "launch_1D grid_x thread = run_threads thread [0..<grid_x]"

definition launch_2D :: "nat \<Rightarrow> nat \<Rightarrow> (nat \<Rightarrow> nat \<Rightarrow> 's \<Rightarrow> 's option) \<Rightarrow> 's \<Rightarrow> 's option" where
  "launch_2D grid_x grid_y thread =
     run_threads (\<lambda>(x, y). thread x y) (List.product [0..<grid_x] [0..<grid_y])"

subsection \<open>The kernels of the filter (CUDAFilter.cu)\<close>

text \<open>\<open>cufftComplex\<close> is a pair of floats: the first component is \<open>.x\<close> (the real part),
  the second is \<open>.y\<close> (the imaginary part).\<close>

type_synonym cufftComplex = "real \<times> real"

text \<open>\<open>createFilter\<close>: thread \<open>x\<close> writes \<open>r[x]\<close> from \<open>j[x]\<close>. The source's \<open>%\<close> on
  \<open>std::int32_t\<close> truncates towards zero, which is \<open>smod\<close>.\<close>

definition createFilter :: "int list \<Rightarrow> nat \<Rightarrow> real \<Rightarrow> nat \<Rightarrow> real list \<Rightarrow> real list option" where
  "createFilter j sz tau x r =
     (if x < sz then
        (case load j x of
           None \<Rightarrow> None
         | Some jx \<Rightarrow>
             if jx = 0 then store r x ((1 / 8) * (1 / tau\<^sup>2))
             else if jx smod 2 = 0 then store r x 0
             else store r x (- 1 / (2 * (real_of_int jx)\<^sup>2 * pi\<^sup>2 * tau\<^sup>2)))
      else Some r)"

definition convertProjection ::
  "real list list \<Rightarrow> nat \<Rightarrow> nat \<Rightarrow> nat \<Rightarrow> nat \<Rightarrow> nat \<Rightarrow> real list list \<Rightarrow> real list list option" where
  "convertProjection input width height filter_length x y output =
     (if x < filter_length \<and> y < height then
        (if x < width then
           (case load_2D input y x of None \<Rightarrow> None | Some v \<Rightarrow> store_2D output y x v)
         else store_2D output y x 0)
      else Some output)"

definition convertFiltered ::
  "real list list \<Rightarrow> nat \<Rightarrow> nat \<Rightarrow> nat \<Rightarrow> nat \<Rightarrow> nat \<Rightarrow> real list list \<Rightarrow> real list list option" where
  "convertFiltered input width height filter_length x y output =
     (if x < width \<and> y < height then
        (case load_2D input y x of
           None \<Rightarrow> None
         | Some v \<Rightarrow> store_2D output y x (v / real filter_length))
      else Some output)"

definition createK :: "nat \<Rightarrow> real \<Rightarrow> nat \<Rightarrow> cufftComplex list \<Rightarrow> cufftComplex list option" where
  "createK filter_length tau x data =
     (if x < filter_length then
        (case load data x of
           None \<Rightarrow> None
         | Some d \<Rightarrow>
             (let result = tau * \<bar>sqrt ((fst d)\<^sup>2 + (snd d)\<^sup>2)\<bar>
              in store data x (result, result)))
      else Some data)"

definition applyFilter ::
  "cufftComplex list \<Rightarrow> nat \<Rightarrow> nat \<Rightarrow> nat \<Rightarrow> nat \<Rightarrow> cufftComplex list list
     \<Rightarrow> cufftComplex list list option" where
  "applyFilter filter_buf filter_length data_height x y data =
     (if x < filter_length \<and> y < data_height then
        (case load_2D data y x of
           None \<Rightarrow> None
         | Some d \<Rightarrow>
             (case load filter_buf x of
                None \<Rightarrow> None
              | Some k \<Rightarrow>
                  (let a1 = fst d; b1 = snd d; k1 = fst k; k2 = snd k
                   in store_2D data y x (a1 * k1, b1 * k2))))
      else Some data)"

text \<open>A true complex product, for comparison with what \<open>applyFilter\<close> computes.\<close>

definition complex_multiply :: "cufftComplex \<Rightarrow> cufftComplex \<Rightarrow> cufftComplex" where
  "complex_multiply a k = (fst a * fst k - snd a * snd k, fst a * snd k + snd a * fst k)"

text \<open>The ramp kernel as the specification writes it: \<open>r(0) = 1/8 \<cdot> 1/\<tau>\<^sup>2\<close>,
  \<open>r(j) = 0\<close> for even \<open>j\<close>, \<open>r(j) = -1 / (2 j\<^sup>2 \<pi>\<^sup>2 \<tau>\<^sup>2)\<close> for odd \<open>j\<close>.\<close>

definition ramp_spec :: "real \<Rightarrow> int \<Rightarrow> real" where
  "ramp_spec tau j =
     (if j = 0 then 1 / 8 * (1 / tau\<^sup>2)
      else if even j then 0
      else - 1 / (2 * (real_of_int j)\<^sup>2 * pi\<^sup>2 * tau\<^sup>2))"

subsection \<open>Filter construction (CUDAFilter.cu)\<close>

text \<open>Modelled from the spec: the declaration of \<open>common::Geometry\<close> (common/Geometry.h) is
  not among the sources. The data model of the specification gives the detector the pixel
  counts \<open>n_h\<close> (columns, the width of a projection) and \<open>n_v\<close> (rows, its height) and the
  horizontal pitch, and says that the field \<open>Filter::Filter\<close> reads,
  \<open>det_pixels_column\<close>, is the row count \<open>n_v\<close>. So \<open>det_pixels_row\<close> is \<open>n_h\<close>, the
  number of pixels of one detector row, and \<open>det_pixels_column\<close> is \<open>n_v\<close>, the number of
  pixels of one detector column.\<close>

record Geometry =
  det_pixels_row :: nat
  det_pixels_column :: nat
  det_pixel_size_horiz :: real

text \<open>The member initialiser of \<open>Filter::Filter\<close>:
  \<open>2 * std::pow(2, std::ceil(std::log2(float(geo.det_pixels_column))))\<close>, converted to the
  unsigned type of \<open>filter_length_\<close>. For a count of zero the logarithm is minus infinity,
  the power is zero and so is the length; HOL's \<open>log\<close> is total, so that case is written
  out. The logarithm is exact here; the source takes it in single precision.\<close>

definition filter_length_init :: "Geometry \<Rightarrow> nat" where
  "filter_length_init geo =
     (if det_pixels_column geo = 0 then 0
      else nat \<lfloor>2 * 2 powr real_of_int \<lceil>log 2 (real (det_pixels_column geo))\<rceil>\<rfloor>)"

text \<open>\<open>Filter::filterProcessor\<close> fills the host buffer of the indices \<open>j\<close>, allocated with
  \<open>filter_length_\<close> elements:
  \<^verbatim>\<open>for(auto k = 0u; k <= (filter_length_); ++k, ++j) j_host_buffer[k] = j;\<close>
  A write outside the buffer ends the run with the index it went to. The source's \<open>/\<close> on
  \<open>std::int32_t\<close> truncates towards zero, which is \<open>sdiv\<close>; the lengths considered are
  below \<open>2^31\<close>, where the conversion to \<open>std::int32_t\<close> keeps the value.\<close>

datatype access_error = out_of_bounds nat

function j_host_buffer_loop :: "nat \<Rightarrow> nat \<Rightarrow> int \<Rightarrow> int list \<Rightarrow> access_error + int list" where
  "j_host_buffer_loop filter_length k j j_host_buffer =
     (if k \<le> filter_length then
        (case store j_host_buffer k j of
           None \<Rightarrow> Inl (out_of_bounds k)
         | Some buf \<Rightarrow> j_host_buffer_loop filter_length (k + 1) (j + 1) buf)
      else Inr j_host_buffer)"
  by pat_completeness auto
termination
  by (relation "measure (\<lambda>(filter_length, k, j, buf). Suc filter_length - k)") auto

definition filterProcessor_j_host_buffer :: "nat \<Rightarrow> int list \<Rightarrow> access_error + int list" where
  "filterProcessor_j_host_buffer filter_length j_host_buffer =
     (let filter_length_signed = int filter_length;
          j = - ((filter_length_signed - 2) sdiv 2)
      in j_host_buffer_loop filter_length 0 j j_host_buffer)"

subsection \<open>The filter stage's hand-over (CUDAFilter.cu)\<close>

text \<open>An image of the pipeline, as far as \<open>Filter::process\<close> looks at it: whether it is
  valid, the device it lives on, and its pixels.\<close>

record Image =
  Image_valid :: bool
  Image_device :: int
  Image_data :: "real list list"

text \<open>\<open>output_type()\<close>: the default-constructed image, which is not valid (the poisonous
  pill).\<close>

definition Image_default :: Image where
  "Image_default = \<lparr>Image_valid = False, Image_device = 0, Image_data = []\<rparr>"

text \<open>A thread of \<open>processor_threads_\<close>, with the image and the device it was started with.
  It is \<open>running\<close> until \<open>Filter::processor\<close> has pushed its result to \<open>results_\<close>, then
  \<open>finished\<close>, and \<open>joined\<close> once \<open>join\<close> has returned for it: a joined thread stays in
  the vector and is no longer joinable.\<close>

datatype thread_state = running | finished | joined

record processor_thread =
  thread_img :: Image
  thread_device :: int
  thread_state :: thread_state

text \<open>The state of a \<open>Filter\<close>; \<open>results_\<close> is the queue that \<open>wait\<close> takes from.\<close>

record Filter =
  filter_length_m :: nat
  tau_m :: real
  devices_m :: int
  processor_threads_m :: "processor_thread list"
  results_m :: "Image list"

text \<open>\<open>Filter::Filter\<close>: the member initialisers and the device count. The kernels \<open>rs_\<close>
  that the constructor has \<open>filterProcessor\<close> make, one for each device, are not part of
  this state.\<close>

definition Filter_constructor :: "Geometry \<Rightarrow> int \<Rightarrow> Filter" where
  "Filter_constructor geo devices =
     \<lparr>filter_length_m = filter_length_init geo,
      tau_m = det_pixel_size_horiz geo,
      devices_m = devices,
      processor_threads_m = [],
      results_m = []\<rparr>"

text \<open>The filtering a thread does (\<open>Filter::processor\<close>, which calls cuFFT) is a parameter
  \<open>processor\<close>: it gives the image the thread pushes, or \<open>None\<close> when a check of the CUDA
  or cuFFT status throws. An exception that leaves a thread ends the program
  (\<open>std::terminate\<close>); \<open>join\<close> on a thread that is not joinable throws
  \<open>std::system_error\<close>.\<close>

datatype Filter_failure = terminate_called | system_error

text \<open>A step of the scheduler: the thread at index \<open>i\<close>, if it is running, runs to its end
  and pushes its result. Such a step can come at any time between the start of the thread
  and its join.\<close>

definition processor_thread_ends ::
  "(Image \<Rightarrow> int \<Rightarrow> Image option) \<Rightarrow> Filter \<Rightarrow> nat \<Rightarrow> Filter_failure + Filter" where
  "processor_thread_ends processor f i =
     (if i < length (processor_threads_m f) \<and>
         thread_state (processor_threads_m f ! i) = running
      then (case processor (thread_img (processor_threads_m f ! i))
                           (thread_device (processor_threads_m f ! i)) of
              None \<Rightarrow> Inl terminate_called
            | Some out \<Rightarrow>
                Inr (f\<lparr>processor_threads_m :=
                          (processor_threads_m f)
                            [i := (processor_threads_m f ! i)\<lparr>thread_state := finished\<rparr>],
                        results_m := results_m f @ [out]\<rparr>))
      else Inr f)"

text \<open>\<open>for(auto&& t : processor_threads_) t.join();\<close> The join of a running thread waits
  for its end, so the thread's push comes no later than here.\<close>

fun join_threads ::
  "(Image \<Rightarrow> int \<Rightarrow> Image option) \<Rightarrow> processor_thread list \<Rightarrow> Image list
     \<Rightarrow> Filter_failure + processor_thread list \<times> Image list" where
  "join_threads processor [] results = Inr ([], results)"
| "join_threads processor (t # ts) results =
     (case thread_state t of
        joined \<Rightarrow> Inl system_error
      | finished \<Rightarrow>
          (case join_threads processor ts results of
             Inl e \<Rightarrow> Inl e
           | Inr (ts', results') \<Rightarrow> Inr (t\<lparr>thread_state := joined\<rparr> # ts', results'))
      | running \<Rightarrow>
          (case processor (thread_img t) (thread_device t) of
             None \<Rightarrow> Inl terminate_called
           | Some out \<Rightarrow>
               (case join_threads processor ts (results @ [out]) of
                  Inl e \<Rightarrow> Inl e
                | Inr (ts', results') \<Rightarrow> Inr (t\<lparr>thread_state := joined\<rparr> # ts', results'))))"

text \<open>\<open>Filter::finish\<close>: join every thread of the vector, then push \<open>output_type()\<close>.\<close>

definition Filter_finish ::
  "(Image \<Rightarrow> int \<Rightarrow> Image option) \<Rightarrow> Filter \<Rightarrow> Filter_failure + Filter" where
  "Filter_finish processor f =
     (case join_threads processor (processor_threads_m f) (results_m f) of
        Inl e \<Rightarrow> Inl e
      | Inr (ts, results) \<Rightarrow>
          Inr (f\<lparr>processor_threads_m := ts, results_m := results @ [Image_default]\<rparr>))"

text \<open>\<open>Filter::process\<close>: on an image that is not valid, \<open>finish\<close>; otherwise a thread is
  started for the device of the image, if that device is one of \<open>0..devices_-1\<close>.\<close>

definition Filter_process ::
  "(Image \<Rightarrow> int \<Rightarrow> Image option) \<Rightarrow> Filter \<Rightarrow> Image \<Rightarrow> Filter_failure + Filter" where
  "Filter_process processor f img =
     (if \<not> Image_valid img then Filter_finish processor f
      else Inr (foldl (\<lambda>f' i. if Image_device img = i
                                 then f'\<lparr>processor_threads_m :=
                                           processor_threads_m f' @
                                             [\<lparr>thread_img = img, thread_device = i,
                                               thread_state = running\<rparr>]\<rparr>
                                 else f')
                  f [0..devices_m f - 1]))"

subsection \<open>The sink stage (pipeline/SinkStage.h)\<close>

datatype completion = returned | threw_stage_runtime_error | blocked_on_input

record SinkStage =
  target_dir_m :: string

text \<open>\<open>SinkStage::run\<close>: the queue is the list of the images that \<open>input_queue_.take()\<close>
  delivers, in order; when it delivers no more, \<open>take\<close> blocks. \<open>saveImage\<close> writes the image
  to the path it is given: the result lists the files written, in order.\<close>

fun SinkStage_run_loop :: "Image list \<Rightarrow> (string \<times> Image) list \<Rightarrow> completion \<times> (string \<times> Image) list" where
  "SinkStage_run_loop [] saved = (blocked_on_input, saved)"
| "SinkStage_run_loop (img # input_queue) saved =
     (if Image_valid img
      then SinkStage_run_loop input_queue
             (saved @ [(''/home/ufxray/Schreibtisch/Feldkamp/out.tif'', img)])
      else (returned, saved))"

definition SinkStage_run :: "SinkStage \<Rightarrow> Image list \<Rightarrow> completion \<times> (string \<times> Image) list" where
  "SinkStage_run st input_queue = SinkStage_run_loop input_queue []"


text \<open>The file name the specification gives a slice: the prefix, an underscore, the slice
  index in six digits, a dot and the extension, under the configured directory.\<close>

definition six_digits :: "nat \<Rightarrow> string" where
  "six_digits n = map (\<lambda>k. ''0123456789'' ! ((n div 10 ^ k) mod 10)) [5, 4, 3, 2, 1, 0]"

definition slice_file_name :: "string \<Rightarrow> string \<Rightarrow> nat \<Rightarrow> string \<Rightarrow> string" where
  "slice_file_name dir pre slice_index ext =
     dir @ ''/'' @ pre @ ''_'' @ six_digits slice_index @ ''.'' @ ext"

subsection \<open>The preloader stage (preloader_stage.cu)\<close>

datatype pointer = nullptr | host_ptr nat | device_ptr nat

text \<open>A stream handle: the default stream, or a stream made by
  \<open>ddrf::cuda::create_concurrent_stream\<close>, which is never the default stream.\<close>

datatype stream_handle = default_stream | concurrent_stream nat

text \<open>Modelled from the spec: the declaration of \<open>projection\<close> (projection.h) is not among
  the sources. The fields are those the preloader reads and those it passes, in order, when
  it builds its output; a projection with \<open>valid = false\<close> is the poison pill, and the
  value-initialised \<open>output_type{}\<close> is such a projection.\<close>

record projection =
  ptr :: pointer
  width :: nat
  height :: nat
  idx :: nat
  phi :: real
  valid :: bool
  stream :: stream_handle

definition output_type_default :: projection where
  "output_type_default =
     \<lparr>ptr = nullptr, width = 0, height = 0, idx = 0, phi = 0, valid = False,
      stream = default_stream\<rparr>"

text \<open>What the worker does is observed as a trace of events: the calls of the CUDA wrappers
  that came back, the items pushed with \<open>output_\<close>, and the log lines.\<close>

datatype sync_policy = sync | async

datatype cuda_call =
    set_device int
  | allocate_smart nat nat pointer
  | create_concurrent_stream stream_handle
  | fill sync_policy pointer real stream_handle nat nat
  | copy sync_policy pointer pointer stream_handle nat nat
  | synchronize_stream stream_handle

datatype cuda_exception = bad_alloc | invalid_argument | runtime_error

datatype severity = info | fatal

datatype event = called cuda_call | pushed projection | logged severity string

text \<open>The CUDA runtime is outside the program: \<open>fault\<close> says, for every position of the
  trace, whether the wrapper called there throws, and what. A call that throws leaves no
  event. \<open>allocate_smart\<close> and \<open>create_concurrent_stream\<close> return a handle; the handle is
  named after the position of the call, so the handles of different calls differ.\<close>

fun cuda_calls ::
  "(nat \<Rightarrow> cuda_exception option) \<Rightarrow> cuda_call list \<Rightarrow> event list
     \<Rightarrow> cuda_exception \<times> event list + event list" where
  "cuda_calls fault [] tr = Inr tr"
| "cuda_calls fault (c # cs) tr =
     (case fault (length tr) of
        Some e \<Rightarrow> Inl (e, tr)
      | None \<Rightarrow> cuda_calls fault cs (tr @ [called c]))"

text \<open>The body of the loop for a valid projection \<open>p\<close>.\<close>

definition upload_calls :: "projection \<Rightarrow> pointer \<Rightarrow> stream_handle \<Rightarrow> cuda_call list" where
  "upload_calls p dev_p s =
     [allocate_smart (width p) (height p) dev_p,
      create_concurrent_stream s,
      fill async dev_p 0 s (width p) (height p),
      copy async dev_p (ptr p) s (width p) (height p),
      synchronize_stream s]"

definition upload ::
  "(nat \<Rightarrow> cuda_exception option) \<Rightarrow> projection \<Rightarrow> event list
     \<Rightarrow> cuda_exception \<times> event list + event list" where
  "upload fault p tr =
     (let dev_p = device_ptr (length tr);
          s = concurrent_stream (length tr + 1)
      in case cuda_calls fault (upload_calls p dev_p s) tr of
           Inl e \<Rightarrow> Inl e
         | Inr tr' \<Rightarrow>
             Inr (tr' @ [pushed \<lparr>ptr = dev_p, width = width p, height = height p,
                                 idx = idx p, phi = phi p, valid = True, stream = s\<rparr>]))"

datatype loop_exit = break | input_never_returns

text \<open>The \<open>while(true)\<close> loop: \<open>inputs\<close> lists the items that \<open>input_()\<close> delivers, in order;
  when it delivers no more, the call blocks.\<close>

fun run_loop ::
  "(nat \<Rightarrow> cuda_exception option) \<Rightarrow> projection list \<Rightarrow> event list
     \<Rightarrow> cuda_exception \<times> event list + loop_exit \<times> event list" where
  "run_loop fault [] tr = Inr (input_never_returns, tr)"
| "run_loop fault (p # inputs) tr =
     (if \<not> valid p then Inr (break, tr)
      else case upload fault p tr of
             Inl e \<Rightarrow> Inl e
           | Inr tr' \<Rightarrow> run_loop fault inputs tr')"

definition fatal_message :: "cuda_exception \<Rightarrow> string" where
  "fatal_message e =
     (case e of
        bad_alloc \<Rightarrow> ''preloader_stage::run() encountered a bad_alloc: ''
      | invalid_argument \<Rightarrow>
          ''preloader_stage::run() passed an invalid argument to the CUDA runtime: ''
      | runtime_error \<Rightarrow> ''preloader_stage::run() caused a CUDA runtime error: '')"

record preloader_stage =
  device_m :: int
  limit_m :: nat

text \<open>\<open>preloader_stage::run\<close>. First the \<open>try\<close> block: it ends with an exception of the
  CUDA wrappers and the trace up to it, or it ends as the function does.\<close>

definition preloader_stage_try ::
  "preloader_stage \<Rightarrow> (nat \<Rightarrow> cuda_exception option) \<Rightarrow> projection list
     \<Rightarrow> cuda_exception \<times> event list + completion \<times> event list" where
  "preloader_stage_try st fault inputs =
     (case cuda_calls fault [set_device (device_m st)] [] of
        Inl e \<Rightarrow> Inl e
      | Inr tr \<Rightarrow>
          (case run_loop fault inputs tr of
             Inl e \<Rightarrow> Inl e
           | Inr (input_never_returns, tr') \<Rightarrow> Inr (blocked_on_input, tr')
           | Inr (break, tr') \<Rightarrow>
               Inr (returned, tr' @ [pushed output_type_default,
                                     logged info ''Uploaded all projections to the device(s)''])))"

text \<open>Then the three handlers: each logs at \<open>fatal\<close> and throws the \<open>stage_runtime_error\<close>
  made on entry.\<close>

definition preloader_stage_run ::
  "preloader_stage \<Rightarrow> (nat \<Rightarrow> cuda_exception option) \<Rightarrow> projection list
     \<Rightarrow> completion \<times> event list" where
  "preloader_stage_run st fault inputs =
     (case preloader_stage_try st fault inputs of
        Inl (e, tr) \<Rightarrow> (threw_stage_runtime_error, tr @ [logged fatal (fatal_message e)])
      | Inr r \<Rightarrow> r)"

text \<open>A runtime that never throws, and one that throws \<open>e\<close> at position \<open>n\<close> only.\<close>

definition no_fault :: "nat \<Rightarrow> cuda_exception option" where
  "no_fault = (\<lambda>n. None)"

definition fault_at :: "nat \<Rightarrow> cuda_exception \<Rightarrow> nat \<Rightarrow> cuda_exception option" where
  "fault_at n e = no_fault(n := Some e)"

text \<open>The items pushed downstream, in order.\<close>

fun outputs :: "event list \<Rightarrow> projection list" where
  "outputs [] = []"
| "outputs (pushed p # tr) = p # outputs tr"
| "outputs (_ # tr) = outputs tr"

subsection \<open>The driver (main.cpp)\<close>

record program_options =
  enable_io :: bool
  output_path :: string
  prefix :: string

text \<open>The stages a pipeline is made of, with the arguments of \<open>make_stage\<close>. The sink is not
  made by the pipeline: \<open>launch_pipeline\<close> receives a reference to it, which is the address
  of the object in \<open>main\<close>.\<close>

datatype stage =
    source_stage
  | preloader_stage_of nat nat int
  | weighting_stage_of nat int
  | filter_stage_of nat int
  | reconstruction_stage_of nat int
  | sink_stage_at nat

text \<open>What \<open>launch_pipeline\<close> builds: the queue the pipeline was made for, and the stages in
  the order they are given to \<open>connect\<close> and to \<open>run\<close>.\<close>

record pipeline =
  task_queue_of :: nat
  connect_args :: "stage list"
  run_args :: "stage list"

definition launch_pipeline :: "nat option \<Rightarrow> int \<Rightarrow> nat \<Rightarrow> nat \<Rightarrow> nat \<Rightarrow> pipeline option" where
  "launch_pipeline queue device sink input_limit parallel_projections =
     (case queue of
        None \<Rightarrow> None
      | Some q \<Rightarrow>
          (let stages =
                 [source_stage,
                  preloader_stage_of input_limit parallel_projections device,
                  weighting_stage_of input_limit device,
                  filter_stage_of input_limit device,
                  reconstruction_stage_of input_limit device,
                  sink_stage_at sink]
           in Some \<lparr>task_queue_of = q, connect_args = stages, run_args = stages\<rparr>))"

text \<open>\<open>main\<close>, from the creation of the task queue to the loop that starts the pipelines.
  \<open>devices\<close> is what \<open>ddrf::cuda::get_device_count\<close> returns. The task queue and the sink
  are two objects of \<open>main\<close>, at the addresses \<open>task_queue_address\<close> and \<open>sink_address\<close>. The
  result holds the sink that was made, if one was, and what each started call of
  \<open>launch_pipeline\<close> built, in the order of the devices.\<close>

definition task_queue_address :: nat where
  "task_queue_address = 0"

definition sink_address :: nat where
  "sink_address = 1"

record driver_run =
  sink_made :: "(string \<times> string) option"
  futures :: "pipeline option list"

definition main :: "program_options \<Rightarrow> int \<Rightarrow> driver_run" where
  "main po devices =
     (let parallel_projections = 5; input_limit = 1
      in if enable_io po then
           \<lparr>sink_made = Some (output_path po, prefix po),
            futures = map (\<lambda>d. launch_pipeline (Some task_queue_address) d sink_address
                                  input_limit parallel_projections)
                        [0..devices - 1]\<rparr>
         else \<lparr>sink_made = None, futures = []\<rparr>)"

section \<open>Properties\<close>

subsection \<open>Memory and launches\<close>

lemma store_Some_iff: "store buf i v = Some buf' \<longleftrightarrow> i < length buf \<and> buf' = buf[i := v]"
  by (auto simp: store_def)

lemma store_2D_in_bounds:
  "y < length buf \<Longrightarrow> x < length (buf ! y) \<Longrightarrow> store_2D buf y x v = Some (buf[y := (buf ! y)[x := v]])"
  by (simp add: store_2D_def load_def store_def)

lemma load_in_bounds: "i < length buf \<Longrightarrow> load buf i = Some (buf ! i)"
  by (simp add: load_def)

lemma load_2D_in_bounds:
  "y < length buf \<Longrightarrow> x < length (buf ! y) \<Longrightarrow> load_2D buf y x = Some (buf ! y ! x)"
  by (simp add: load_2D_def load_def)

lemma run_threads_pointwise_1D:
  assumes step: "\<And>t s. thread t s = (if g t then store s t (f t (s ! t)) else Some s)"
  shows "distinct ts \<Longrightarrow> \<forall>t\<in>set ts. g t \<longrightarrow> t < length s \<Longrightarrow>
         \<exists>s'. run_threads thread ts s = Some s' \<and> length s' = length s \<and>
              (\<forall>i<length s. s' ! i = (if i \<in> set ts \<and> g i then f i (s ! i) else s ! i))"
proof (induction ts arbitrary: s)
  case Nil
  then show ?case by simp
next
  case (Cons t ts)
  show ?case
  proof (cases "g t")
    case False
    then have "run_threads thread (t # ts) s = run_threads thread ts s"
      by (simp add: step)
    moreover from Cons.prems have "distinct ts" "\<forall>u\<in>set ts. g u \<longrightarrow> u < length s" by auto
    from Cons.IH [OF this] obtain s' where
      "run_threads thread ts s = Some s'" "length s' = length s"
      "\<forall>i<length s. s' ! i = (if i \<in> set ts \<and> g i then f i (s ! i) else s ! i)" by blast
    ultimately show ?thesis using False by auto
  next
    case True
    with Cons.prems have t: "t < length s" by simp
    let ?s1 = "s[t := f t (s ! t)]"
    have run: "run_threads thread (t # ts) s = run_threads thread ts ?s1"
      using True t by (simp add: step store_def)
    from Cons.prems have "distinct ts" "\<forall>u\<in>set ts. g u \<longrightarrow> u < length ?s1" by auto
    from Cons.IH [OF this] obtain s' where s':
      "run_threads thread ts ?s1 = Some s'" "length s' = length ?s1"
      "\<forall>i<length ?s1. s' ! i = (if i \<in> set ts \<and> g i then f i (?s1 ! i) else ?s1 ! i)" by blast
    from Cons.prems have nt: "t \<notin> set ts" by simp
    have "\<forall>i<length s. s' ! i = (if i \<in> set (t # ts) \<and> g i then f i (s ! i) else s ! i)"
    proof (intro allI impI)
      fix i assume i: "i < length s"
      show "s' ! i = (if i \<in> set (t # ts) \<and> g i then f i (s ! i) else s ! i)"
      proof (cases "i = t")
        case True
        then show ?thesis using s'(3) i nt \<open>g t\<close> by simp
      next
        case False
        then show ?thesis using s'(3) i by simp
      qed
    qed
    with run s'(1,2) show ?thesis by simp
  qed
qed

lemma run_threads_pointwise_2D:
  assumes step: "\<And>x y s. thread (x, y) s = (if g x y then store_2D s y x (f x y (s ! y ! x)) else Some s)"
  shows "distinct ts \<Longrightarrow> \<forall>(x, y)\<in>set ts. g x y \<longrightarrow> y < length s \<and> x < length (s ! y) \<Longrightarrow>
         \<exists>s'. run_threads thread ts s = Some s' \<and> length s' = length s \<and>
              (\<forall>y<length s. length (s' ! y) = length (s ! y) \<and>
                 (\<forall>x<length (s ! y). s' ! y ! x = (if (x, y) \<in> set ts \<and> g x y then f x y (s ! y ! x) else s ! y ! x)))"
proof (induction ts arbitrary: s)
  case Nil
  then show ?case by simp
next
  case (Cons t ts)
  obtain tx ty where t: "t = (tx, ty)" by (cases t)
  show ?case
  proof (cases "g tx ty")
    case False
    then have "run_threads thread (t # ts) s = run_threads thread ts s"
      by (simp add: step t)
    moreover from Cons.prems have "distinct ts" "\<forall>(x, y)\<in>set ts. g x y \<longrightarrow> y < length s \<and> x < length (s ! y)" by auto
    from Cons.IH [OF this] obtain s' where
      "run_threads thread ts s = Some s'" "length s' = length s"
      "\<forall>y<length s. length (s' ! y) = length (s ! y) \<and>
                 (\<forall>x<length (s ! y). s' ! y ! x = (if (x, y) \<in> set ts \<and> g x y then f x y (s ! y ! x) else s ! y ! x))" by blast
    ultimately show ?thesis using False t by auto
  next
    case True
    with Cons.prems t have b: "ty < length s" "tx < length (s ! ty)" by auto
    let ?s1 = "s[ty := (s ! ty)[tx := f tx ty (s ! ty ! tx)]]"
    have run: "run_threads thread (t # ts) s = run_threads thread ts ?s1"
      using True b by (simp add: step t store_2D_in_bounds)
    have len1: "length ?s1 = length s" by simp
    have row1: "length (?s1 ! y) = length (s ! y)" if "y < length s" for y
      using that by (cases "y = ty") simp_all
    from Cons.prems have d: "distinct ts" by simp
    have "\<forall>(x, y)\<in>set ts. g x y \<longrightarrow> y < length ?s1 \<and> x < length (?s1 ! y)"
    proof (intro ballI, clarify)
      fix x y assume "(x, y) \<in> set ts" "g x y"
      with Cons.prems(2) have "y < length s" "x < length (s ! y)" by auto
      then show "y < length ?s1 \<and> x < length (?s1 ! y)" using row1 by simp
    qed
    from Cons.IH [OF d this] obtain s' where s':
      "run_threads thread ts ?s1 = Some s'" "length s' = length ?s1"
      "\<forall>y<length ?s1. length (s' ! y) = length (?s1 ! y) \<and>
                 (\<forall>x<length (?s1 ! y). s' ! y ! x = (if (x, y) \<in> set ts \<and> g x y then f x y (?s1 ! y ! x) else ?s1 ! y ! x))" by blast
    from Cons.prems t have nt: "(tx, ty) \<notin> set ts" by simp
    have "\<forall>y<length s. length (s' ! y) = length (s ! y) \<and>
                 (\<forall>x<length (s ! y). s' ! y ! x = (if (x, y) \<in> set (t # ts) \<and> g x y then f x y (s ! y ! x) else s ! y ! x))"
    proof (intro allI impI conjI)
      fix y assume y: "y < length s"
      show "length (s' ! y) = length (s ! y)" using s'(3) y row1 by simp
    next
      fix y x assume y: "y < length s" and x: "x < length (s ! y)"
      have x1: "x < length (?s1 ! y)" using x y row1 by simp
      have eq: "s' ! y ! x = (if (x, y) \<in> set ts \<and> g x y then f x y (?s1 ! y ! x) else ?s1 ! y ! x)"
        using s'(3) y x1 len1 by simp
      show "s' ! y ! x = (if (x, y) \<in> set (t # ts) \<and> g x y then f x y (s ! y ! x) else s ! y ! x)"
      proof (cases "(x, y) = (tx, ty)")
        case True
        then show ?thesis using eq nt \<open>g tx ty\<close> b t by simp
      next
        case False
        then have "?s1 ! y ! x = s ! y ! x" using y x by (cases "y = ty") auto
        then show ?thesis using eq False t by auto
      qed
    qed
    with run s'(1,2) show ?thesis by simp
  qed
qed

lemma distinct_grid: "distinct (List.product [0..<grid_x] [0..<grid_y])"
  by (simp add: distinct_product)

lemma in_grid_iff: "(x, y) \<in> set (List.product [0..<grid_x] [0..<grid_y]) \<longleftrightarrow> x < grid_x \<and> y < grid_y"
  by auto

lemma createK_thread:
  "createK filter_length tau x data =
     (if x < filter_length
      then store data x (tau * sqrt ((fst (data ! x))\<^sup>2 + (snd (data ! x))\<^sup>2),
                         tau * sqrt ((fst (data ! x))\<^sup>2 + (snd (data ! x))\<^sup>2))
      else Some data)"
  by (simp add: createK_def load_def store_def Let_def)

lemma applyFilter_thread:
  assumes "filter_length \<le> length filter_buf"
  shows "applyFilter filter_buf filter_length data_height x y data =
     (if x < filter_length \<and> y < data_height
      then store_2D data y x (fst (data ! y ! x) * fst (filter_buf ! x),
                              snd (data ! y ! x) * snd (filter_buf ! x))
      else Some data)"
  using assms
  by (auto simp: applyFilter_def load_2D_def load_def store_2D_def store_def Let_def)

lemma convertProjection_thread:
  assumes "h \<le> length input" and "\<forall>y<h. w \<le> length (input ! y)"
  shows "convertProjection input w h filter_length x y output =
     (if x < filter_length \<and> y < h
      then store_2D output y x (if x < w then input ! y ! x else 0)
      else Some output)"
  using assms by (auto simp: convertProjection_def load_2D_def load_def)

lemma convertFiltered_thread:
  assumes "h \<le> length input" and "\<forall>y<h. w \<le> length (input ! y)"
  shows "convertFiltered input w h filter_length x y output =
     (if x < w \<and> y < h
      then store_2D output y x (input ! y ! x / real filter_length)
      else Some output)"
  using assms by (auto simp: convertFiltered_def load_2D_def load_def)

lemma launch_2D_pointwise:
  assumes step: "\<And>x y s. thread x y s = (if g x y then store_2D s y x (f x y (s ! y ! x)) else Some s)"
    and bounds: "\<forall>x y. g x y \<longrightarrow> y < length s \<and> x < length (s ! y)"
    and cover: "\<forall>x y. g x y \<longrightarrow> x < grid_x \<and> y < grid_y"
  shows "\<exists>s'. launch_2D grid_x grid_y thread s = Some s' \<and> length s' = length s \<and>
              (\<forall>y<length s. length (s' ! y) = length (s ! y) \<and>
                 (\<forall>x<length (s ! y). s' ! y ! x = (if g x y then f x y (s ! y ! x) else s ! y ! x)))"
proof -
  let ?ts = "List.product [0..<grid_x] [0..<grid_y]"
  have step': "\<And>x y s. (\<lambda>(x, y). thread x y) (x, y) s =
                 (if g x y then store_2D s y x (f x y (s ! y ! x)) else Some s)"
    by (simp add: step)
  have b: "\<forall>(x, y)\<in>set ?ts. g x y \<longrightarrow> y < length s \<and> x < length (s ! y)"
    using bounds by blast
  from run_threads_pointwise_2D [of "\<lambda>(x, y). thread x y" g f ?ts s, OF step' distinct_grid b]
  obtain s' where s': "run_threads (\<lambda>(x, y). thread x y) ?ts s = Some s'" "length s' = length s"
    "\<forall>y<length s. length (s' ! y) = length (s ! y) \<and>
       (\<forall>x<length (s ! y). s' ! y ! x = (if (x, y) \<in> set ?ts \<and> g x y then f x y (s ! y ! x) else s ! y ! x))"
    by blast
  have "\<forall>y<length s. length (s' ! y) = length (s ! y) \<and>
          (\<forall>x<length (s ! y). s' ! y ! x = (if g x y then f x y (s ! y ! x) else s ! y ! x))"
    using s'(3) cover in_grid_iff by auto
  with s'(1,2) show ?thesis by (simp add: launch_2D_def)
qed

lemma launch_1D_pointwise:
  assumes step: "\<And>t s. thread t s = (if g t then store s t (f t (s ! t)) else Some s)"
    and bounds: "\<forall>t. g t \<longrightarrow> t < length s"
    and cover: "\<forall>t. g t \<longrightarrow> t < grid_x"
  shows "\<exists>s'. launch_1D grid_x thread s = Some s' \<and> length s' = length s \<and>
              (\<forall>i<length s. s' ! i = (if g i then f i (s ! i) else s ! i))"
proof -
  have "distinct [0..<grid_x]" and "\<forall>t\<in>set [0..<grid_x]. g t \<longrightarrow> t < length s"
    using bounds by auto
  from run_threads_pointwise_1D [of thread g f "[0..<grid_x]" s, OF step this]
  obtain s' where s': "run_threads thread [0..<grid_x] s = Some s'" "length s' = length s"
    "\<forall>i<length s. s' ! i = (if i \<in> set [0..<grid_x] \<and> g i then f i (s ! i) else s ! i)"
    by blast
  have "\<forall>i<length s. s' ! i = (if g i then f i (s ! i) else s ! i)"
    using s'(3) cover by auto
  with s'(1,2) show ?thesis by (simp add: launch_1D_def)
qed


subsection \<open>The ramp kernel\<close>

lemma smod_2_eq_0_iff_even: "(k::int) smod 2 = 0 \<longleftrightarrow> even k"
  by (auto simp: smod_int_alt_def sgn_if)

lemma createFilter_thread:
  assumes "sz \<le> length j"
  shows "createFilter j sz tau x r = (if x < sz then store r x (ramp_spec tau (j ! x)) else Some r)"
  using assms by (simp add: createFilter_def ramp_spec_def load_def smod_2_eq_0_iff_even)

text \<open>Claim C4. For every index \<open>j\<close> and pixel pitch \<open>\<tau>\<close>, the kernel that \<open>createFilter\<close> builds
  is the ramp kernel of the specification: \<open>1/8 \<cdot> 1/\<tau>\<^sup>2\<close> at \<open>j = 0\<close>, \<open>0\<close> at the other even
  \<open>j\<close>, and \<open>-1 / (2 j\<^sup>2 \<pi>\<^sup>2 \<tau>\<^sup>2)\<close> at odd \<open>j\<close>. A launch over a grid that covers \<open>sz\<close>
  threads, on buffers that hold \<open>sz\<close> elements, writes \<open>r[x] = ramp_spec \<tau> (j[x])\<close> for every
  \<open>x < sz\<close> and leaves the rest of \<open>r\<close> as it was. The pitch is not zero, so that the
  quotients are those of the source.\<close>

theorem createFilter_ramp:
  assumes "tau \<noteq> 0" and "sz \<le> length j" and "sz \<le> length r" and "sz \<le> grid_x"
  shows "\<exists>r'. launch_1D grid_x (createFilter j sz tau) r = Some r' \<and> length r' = length r \<and>
           (\<forall>x<sz. r' ! x = ramp_spec tau (j ! x)) \<and>
           (\<forall>x. sz \<le> x \<and> x < length r \<longrightarrow> r' ! x = r ! x)"
proof -
  have step: "\<And>t s. createFilter j sz tau t s =
                (if t < sz then store s t ((\<lambda>x old. ramp_spec tau (j ! x)) t (s ! t)) else Some s)"
    using assms(2) by (simp add: createFilter_thread)
  have "distinct [0..<grid_x]" and "\<forall>t\<in>set [0..<grid_x]. t < sz \<longrightarrow> t < length r"
    using assms(3) by auto
  from run_threads_pointwise_1D [of "createFilter j sz tau" "\<lambda>t. t < sz" _ "[0..<grid_x]" r, OF step this]
  obtain r' where r': "run_threads (createFilter j sz tau) [0..<grid_x] r = Some r'"
    "length r' = length r"
    "\<forall>i<length r. r' ! i = (if i \<in> set [0..<grid_x] \<and> i < sz then ramp_spec tau (j ! i) else r ! i)"
    by blast
  have "\<forall>x<sz. r' ! x = ramp_spec tau (j ! x)"
    using r'(3) assms(3,4) by auto
  moreover have "\<forall>x. sz \<le> x \<and> x < length r \<longrightarrow> r' ! x = r ! x"
    using r'(3) by auto
  ultimately show ?thesis using r'(1,2) by (simp add: launch_1D_def)
qed

theorem createFilter_ramp_witness:
  "(1::real) \<noteq> 0 \<and> 4 \<le> length [- 1, 0, 1, 2 :: int] \<and> 4 \<le> length [9, 9, 9, 9 :: real] \<and> (4::nat) \<le> 4 \<and>
   launch_1D 4 (createFilter [- 1, 0, 1, 2] 4 1) [9, 9, 9, 9] =
     Some [- 1 / (2 * pi\<^sup>2), 1 / 8, - 1 / (2 * pi\<^sup>2), 0]"
proof -
  from createFilter_ramp [of 1 4 "[- 1, 0, 1, 2]" "[9, 9, 9, 9]" 4]
  obtain r' where r': "launch_1D 4 (createFilter [- 1, 0, 1, 2] 4 1) [9, 9, 9, 9] = Some r'"
    "length r' = 4" "\<forall>x<4. r' ! x = ramp_spec 1 ([- 1, 0, 1, 2] ! x)"
    by auto
  have "r' ! 0 = - 1 / (2 * pi\<^sup>2)" "r' ! 1 = 1 / 8" "r' ! 2 = - 1 / (2 * pi\<^sup>2)" "r' ! 3 = 0"
    using r'(3) by (simp_all add: ramp_spec_def)
  then have "r' = [- 1 / (2 * pi\<^sup>2), 1 / 8, - 1 / (2 * pi\<^sup>2), 0]"
    using r'(2) by (auto simp: list_eq_iff_nth_eq less_Suc_eq numeral_eq_Suc)
  with r'(1) show ?thesis by simp
qed

subsection \<open>The frequency response and its application\<close>

text \<open>Claim C5. \<open>createK\<close> overwrites every element \<open>X\<close> of the transformed kernel with
  \<open>\<tau> \<cdot> |X|\<close> in both components, \<open>|X|\<close> being \<open>sqrt (X.x\<^sup>2 + X.y\<^sup>2)\<close>. \<open>applyFilter\<close> then
  multiplies, in every row, the real part of the projection's element by the real part of
  the filter's element and its imaginary part by the filter's imaginary part. That is not
  the complex product: on \<open>(1, 1)\<close> and \<open>(1, 1)\<close> the kernel gives \<open>(1, 1)\<close>, the complex
  product is \<open>(0, 2)\<close>. The buffers hold the extents the kernels are given, and the grids
  cover them.\<close>

theorem createK_applyFilter:
  assumes "filter_length \<le> length X" and "filter_length \<le> grid_x"
    and "filter_length \<le> length K"
    and "data_height \<le> length data" and "\<forall>y<data_height. filter_length \<le> length (data ! y)"
    and "data_height \<le> grid_y"
  shows "(\<exists>X'. launch_1D grid_x (createK filter_length tau) X = Some X' \<and> length X' = length X \<and>
            (\<forall>x<filter_length.
               X' ! x = (tau * sqrt ((fst (X ! x))\<^sup>2 + (snd (X ! x))\<^sup>2),
                         tau * sqrt ((fst (X ! x))\<^sup>2 + (snd (X ! x))\<^sup>2)))) \<and>
         (\<exists>data'. launch_2D grid_x grid_y (applyFilter K filter_length data_height) data = Some data' \<and>
            length data' = length data \<and>
            (\<forall>y<data_height. \<forall>x<filter_length.
               data' ! y ! x = (fst (data ! y ! x) * fst (K ! x), snd (data ! y ! x) * snd (K ! x)))) \<and>
         launch_2D 1 1 (applyFilter [(1, 1)] 1 1) [[(1, 1)]] = Some [[(1, 1)]] \<and>
         complex_multiply (1, 1) (1, 1) = (0, 2)"
proof (intro conjI)
  let ?f = "\<lambda>(x::nat) (d::cufftComplex). (tau * sqrt ((fst d)\<^sup>2 + (snd d)\<^sup>2), tau * sqrt ((fst d)\<^sup>2 + (snd d)\<^sup>2))"
  have step: "\<And>t s. createK filter_length tau t s =
                 (if t < filter_length then store s t (?f t (s ! t)) else Some s)"
    by (simp add: createK_thread)
  have "\<forall>t. t < filter_length \<longrightarrow> t < length X" and "\<forall>t. t < filter_length \<longrightarrow> t < grid_x"
    using assms(1,2) by auto
  from launch_1D_pointwise [of "createK filter_length tau" "\<lambda>t. t < filter_length" ?f X grid_x,
      OF step this]
  obtain X' where X': "launch_1D grid_x (createK filter_length tau) X = Some X'"
    "length X' = length X"
    "\<forall>i<length X. X' ! i = (if i < filter_length then ?f i (X ! i) else X ! i)"
    by blast
  have "\<forall>x<filter_length. X' ! x = ?f x (X ! x)"
    using X'(3) assms(1) by auto
  with X'(1,2)
  show "\<exists>X'. launch_1D grid_x (createK filter_length tau) X = Some X' \<and> length X' = length X \<and>
            (\<forall>x<filter_length.
               X' ! x = (tau * sqrt ((fst (X ! x))\<^sup>2 + (snd (X ! x))\<^sup>2),
                         tau * sqrt ((fst (X ! x))\<^sup>2 + (snd (X ! x))\<^sup>2)))"
    by auto
next
  let ?g = "\<lambda>x y. x < filter_length \<and> y < data_height"
  let ?f = "\<lambda>(x::nat) (y::nat) (d::cufftComplex). (fst d * fst (K ! x), snd d * snd (K ! x))"
  have step: "\<And>x y s. applyFilter K filter_length data_height x y s =
                 (if ?g x y then store_2D s y x (?f x y (s ! y ! x)) else Some s)"
    using assms(3) by (simp add: applyFilter_thread)
  have "\<forall>x y. ?g x y \<longrightarrow> y < length data \<and> x < length (data ! y)"
    and "\<forall>x y. ?g x y \<longrightarrow> x < grid_x \<and> y < grid_y"
    using assms(2,4,5,6) by (auto simp: less_le_trans)
  from launch_2D_pointwise [of "applyFilter K filter_length data_height" ?g ?f data grid_x grid_y,
      OF step this]
  obtain data' where d': "launch_2D grid_x grid_y (applyFilter K filter_length data_height) data = Some data'"
    "length data' = length data"
    "\<forall>y<length data. length (data' ! y) = length (data ! y) \<and>
       (\<forall>x<length (data ! y). data' ! y ! x = (if ?g x y then ?f x y (data ! y ! x) else data ! y ! x))"
    by blast
  have "\<forall>y<data_height. \<forall>x<filter_length. data' ! y ! x = ?f x y (data ! y ! x)"
  proof (intro allI impI)
    fix y x assume yx: "y < data_height" "x < filter_length"
    then have "y < length data" "x < length (data ! y)" using assms(4,5) by (auto simp: less_le_trans)
    with d'(3) yx show "data' ! y ! x = ?f x y (data ! y ! x)" by simp
  qed
  with d'(1,2)
  show "\<exists>data'. launch_2D grid_x grid_y (applyFilter K filter_length data_height) data = Some data' \<and>
            length data' = length data \<and>
            (\<forall>y<data_height. \<forall>x<filter_length.
               data' ! y ! x = (fst (data ! y ! x) * fst (K ! x), snd (data ! y ! x) * snd (K ! x)))"
    by auto
next
  show "launch_2D 1 1 (applyFilter [(1, 1)] 1 1) [[(1, 1)]] = Some [[(1, 1)]]"
    by (simp add: launch_2D_def applyFilter_def load_2D_def store_2D_def load_def store_def)
next
  show "complex_multiply (1, 1) (1, 1) = (0, 2)"
    by (simp add: complex_multiply_def)
qed


theorem createK_applyFilter_witness:
  "(1::nat) \<le> length [(3, 4) :: cufftComplex] \<and> (1::nat) \<le> 1 \<and>
   (1::nat) \<le> length [(2, 3) :: cufftComplex] \<and>
   (1::nat) \<le> length [[(5, 7) :: cufftComplex]] \<and>
   (1::nat) \<le> length ([[(5, 7) :: cufftComplex]] ! 0) \<and>
   launch_1D 1 (createK 1 2) [(3, 4)] = Some [(10, 10)] \<and>
   launch_2D 1 1 (applyFilter [(2, 3)] 1 1) [[(5, 7)]] = Some [[(10, 21)]]"
proof -
  have sq: "sqrt (25::real) = 5"
    using real_sqrt_abs [of 5] by simp
  from createK_applyFilter [of 1 "[(3, 4)]" 1 "[(2, 3)]" 1 "[[(5, 7)]]" 1 2]
  obtain X' data' where
    X': "launch_1D 1 (createK 1 2) [(3, 4)] = Some X'" "length X' = 1"
        "X' ! 0 = (2 * sqrt (3\<^sup>2 + 4\<^sup>2), 2 * sqrt (3\<^sup>2 + 4\<^sup>2))"
    and d': "launch_2D 1 1 (applyFilter [(2, 3)] 1 1) [[(5, 7)]] = Some data'" "length data' = 1"
        "data' ! 0 ! 0 = (5 * 2, 7 * 3)"
    by auto
  have "X' = [(10, 10)]"
    using X'(2,3) sq by (cases X') auto
  moreover have "launch_2D 1 1 (applyFilter [(2, 3)] 1 1) [[(5, 7)]] = Some [[(10, 21)]]"
    by (simp add: launch_2D_def applyFilter_def load_2D_def store_2D_def load_def store_def)
  ultimately show ?thesis using X'(1) by simp
qed

subsection \<open>Padding and unpadding\<close>

text \<open>Claim C6, amended: for a projection of width \<open>n_h\<close> and a filter length \<open>L\<close> with
  \<open>n_h \<le> L\<close>. The padding step copies the first \<open>n_h\<close> samples of every row unchanged, sets
  the samples at the indices \<open>n_h..L-1\<close> to zero, and keeps all rows; the unpadding step
  writes, into the projection's buffer, each of the first \<open>n_h\<close> samples of every row of the
  padded buffer divided by \<open>L\<close>. The buffers hold the extents the kernels are given, and the
  grid covers \<open>L\<close> by the number of rows, as the launches of \<open>Filter::processor\<close> ask.\<close>

theorem convertProjection_convertFiltered:
  assumes "n_h \<le> L"
    and "n_rows \<le> length input" and "\<forall>y<n_rows. n_h \<le> length (input ! y)"
    and "n_rows \<le> length converted" and "\<forall>y<n_rows. L \<le> length (converted ! y)"
    and "n_rows \<le> length filtered" and "\<forall>y<n_rows. L \<le> length (filtered ! y)"
    and "L \<le> grid_x" and "n_rows \<le> grid_y"
  shows "(\<exists>padded. launch_2D grid_x grid_y (convertProjection input n_h n_rows L) converted = Some padded \<and>
            length padded = length converted \<and>
            (\<forall>y<n_rows. length (padded ! y) = length (converted ! y) \<and>
               (\<forall>x<n_h. padded ! y ! x = input ! y ! x) \<and>
               (\<forall>x. n_h \<le> x \<and> x < L \<longrightarrow> padded ! y ! x = 0))) \<and>
         (\<exists>img. launch_2D grid_x grid_y (convertFiltered filtered n_h n_rows L) input = Some img \<and>
            length img = length input \<and>
            (\<forall>y<n_rows. length (img ! y) = length (input ! y) \<and>
               (\<forall>x<n_h. img ! y ! x = filtered ! y ! x / real L)))"
proof (intro conjI)
  let ?g = "\<lambda>x y. x < L \<and> y < n_rows"
  let ?f = "\<lambda>(x::nat) (y::nat) (old::real). if x < n_h then input ! y ! x else 0"
  have step: "\<And>x y s. convertProjection input n_h n_rows L x y s =
                 (if ?g x y then store_2D s y x (?f x y (s ! y ! x)) else Some s)"
    using assms(2,3) by (simp add: convertProjection_thread)
  have "\<forall>x y. ?g x y \<longrightarrow> y < length converted \<and> x < length (converted ! y)"
    and "\<forall>x y. ?g x y \<longrightarrow> x < grid_x \<and> y < grid_y"
    using assms(4,5,8,9) by (auto simp: less_le_trans)
  from launch_2D_pointwise [of "convertProjection input n_h n_rows L" ?g ?f converted grid_x grid_y,
      OF step this]
  obtain padded where p:
    "launch_2D grid_x grid_y (convertProjection input n_h n_rows L) converted = Some padded"
    "length padded = length converted"
    "\<forall>y<length converted. length (padded ! y) = length (converted ! y) \<and>
       (\<forall>x<length (converted ! y).
          padded ! y ! x = (if ?g x y then ?f x y (converted ! y ! x) else converted ! y ! x))"
    by blast
  have "\<forall>y<n_rows. length (padded ! y) = length (converted ! y) \<and>
               (\<forall>x<n_h. padded ! y ! x = input ! y ! x) \<and>
               (\<forall>x. n_h \<le> x \<and> x < L \<longrightarrow> padded ! y ! x = 0)"
  proof (intro allI impI)
    fix y assume y: "y < n_rows"
    then have yl: "y < length converted" and row: "L \<le> length (converted ! y)"
      using assms(4,5) by auto
    from p(3) yl have
      len: "length (padded ! y) = length (converted ! y)" and
      el: "\<forall>x<length (converted ! y).
              padded ! y ! x = (if ?g x y then ?f x y (converted ! y ! x) else converted ! y ! x)"
      by auto
    have "\<forall>x<n_h. padded ! y ! x = input ! y ! x"
      using el row y assms(1) by auto
    moreover have "\<forall>x. n_h \<le> x \<and> x < L \<longrightarrow> padded ! y ! x = 0"
      using el row y by auto
    ultimately show "length (padded ! y) = length (converted ! y) \<and>
               (\<forall>x<n_h. padded ! y ! x = input ! y ! x) \<and>
               (\<forall>x. n_h \<le> x \<and> x < L \<longrightarrow> padded ! y ! x = 0)"
      using len by simp
  qed
  with p(1,2)
  show "\<exists>padded. launch_2D grid_x grid_y (convertProjection input n_h n_rows L) converted = Some padded \<and>
            length padded = length converted \<and>
            (\<forall>y<n_rows. length (padded ! y) = length (converted ! y) \<and>
               (\<forall>x<n_h. padded ! y ! x = input ! y ! x) \<and>
               (\<forall>x. n_h \<le> x \<and> x < L \<longrightarrow> padded ! y ! x = 0))"
    by blast
next
  let ?g = "\<lambda>x y. x < n_h \<and> y < n_rows"
  let ?f = "\<lambda>(x::nat) (y::nat) (old::real). filtered ! y ! x / real L"
  have rows: "\<forall>y<n_rows. n_h \<le> length (filtered ! y)"
    using assms(1,7) by (auto intro: le_trans)
  have step: "\<And>x y s. convertFiltered filtered n_h n_rows L x y s =
                 (if ?g x y then store_2D s y x (?f x y (s ! y ! x)) else Some s)"
    using assms(6) rows by (simp add: convertFiltered_thread)
  have "\<forall>x y. ?g x y \<longrightarrow> y < length input \<and> x < length (input ! y)"
    and "\<forall>x y. ?g x y \<longrightarrow> x < grid_x \<and> y < grid_y"
    using assms(1,2,3,8,9) by (auto simp: less_le_trans)
  from launch_2D_pointwise [of "convertFiltered filtered n_h n_rows L" ?g ?f input grid_x grid_y,
      OF step this]
  obtain img where i:
    "launch_2D grid_x grid_y (convertFiltered filtered n_h n_rows L) input = Some img"
    "length img = length input"
    "\<forall>y<length input. length (img ! y) = length (input ! y) \<and>
       (\<forall>x<length (input ! y).
          img ! y ! x = (if ?g x y then ?f x y (input ! y ! x) else input ! y ! x))"
    by blast
  have "\<forall>y<n_rows. length (img ! y) = length (input ! y) \<and>
               (\<forall>x<n_h. img ! y ! x = filtered ! y ! x / real L)"
  proof (intro allI impI)
    fix y assume y: "y < n_rows"
    then have yl: "y < length input" and row: "n_h \<le> length (input ! y)"
      using assms(2,3) by auto
    from i(3) yl have
      len: "length (img ! y) = length (input ! y)" and
      el: "\<forall>x<length (input ! y).
              img ! y ! x = (if ?g x y then ?f x y (input ! y ! x) else input ! y ! x)"
      by auto
    have "\<forall>x<n_h. img ! y ! x = filtered ! y ! x / real L"
      using el row y by auto
    then show "length (img ! y) = length (input ! y) \<and>
               (\<forall>x<n_h. img ! y ! x = filtered ! y ! x / real L)"
      using len by simp
  qed
  with i(1,2)
  show "\<exists>img. launch_2D grid_x grid_y (convertFiltered filtered n_h n_rows L) input = Some img \<and>
            length img = length input \<and>
            (\<forall>y<n_rows. length (img ! y) = length (input ! y) \<and>
               (\<forall>x<n_h. img ! y ! x = filtered ! y ! x / real L))"
    by blast
qed

theorem convertProjection_convertFiltered_witness:
  "(2::nat) \<le> 4 \<and> (1::nat) \<le> length [[1, 2 :: real]] \<and>
   (2::nat) \<le> length ([[1, 2 :: real]] ! 0) \<and>
   (4::nat) \<le> length ([[7, 7, 7, 7 :: real]] ! 0) \<and>
   (4::nat) \<le> length ([[8, 12, 16, 20 :: real]] ! 0) \<and>
   launch_2D 4 1 (convertProjection [[1, 2]] 2 1 4) [[7, 7, 7, 7]] = Some [[1, 2, 0, 0]] \<and>
   launch_2D 4 1 (convertFiltered [[8, 12, 16, 20]] 2 1 4) [[1, 2]] = Some [[2, 3]]"
proof -
  from convertProjection_convertFiltered
         [of 2 4 1 "[[1, 2]]" "[[7, 7, 7, 7]]" "[[8, 12, 16, 20]]" 4 1]
  obtain padded img where
    p: "launch_2D 4 1 (convertProjection [[1, 2]] 2 1 4) [[7, 7, 7, 7]] = Some padded"
       "length padded = 1" "length (padded ! 0) = 4"
       "\<forall>x<2. padded ! 0 ! x = [[1, 2]] ! 0 ! x"
       "\<forall>x. 2 \<le> x \<and> x < 4 \<longrightarrow> padded ! 0 ! x = 0"
    and i: "launch_2D 4 1 (convertFiltered [[8, 12, 16, 20]] 2 1 4) [[1, 2]] = Some img"
       "length img = 1" "length (img ! 0) = 2"
       "\<forall>x<2. img ! 0 ! x = [[8, 12, 16, 20]] ! 0 ! x / real 4"
    by auto
  have "padded ! 0 ! 0 = 1" "padded ! 0 ! 1 = 2" "padded ! 0 ! 2 = 0" "padded ! 0 ! 3 = 0"
    using p(4,5) by simp_all
  then have "padded ! 0 = [1, 2, 0, 0]"
    using p(3) by (auto simp: list_eq_iff_nth_eq less_Suc_eq numeral_eq_Suc)
  then have "padded = [[1, 2, 0, 0]]"
    using p(2) by (cases padded) auto
  moreover have "img ! 0 ! 0 = 2" "img ! 0 ! 1 = 3"
    using i(4) [rule_format, of 0] i(4) [rule_format, of 1] by simp_all
  then have "img ! 0 = [2, 3]"
    using i(3) by (auto simp: list_eq_iff_nth_eq less_Suc_eq numeral_eq_Suc)
  then have "img = [[2, 3]]"
    using i(2) by (cases img) auto
  ultimately show ?thesis using p(1) i(1) by simp
qed

text \<open>Claim C6 as stated, for any filter length, fails when the filter length is below the
  width: \<open>convertProjection\<close> writes only at \<open>x < filter_length\<close>. With width \<open>2\<close> and filter
  length \<open>1\<close>, the second sample of the row \<open>[1, 2]\<close> is not copied: a padded row of one
  element has no place for it, and in a padded row that reaches further (the pitch of the
  allocation) the element at index \<open>1\<close> keeps what it held, here \<open>7\<close>, also when the grid has
  more threads than the launch asks for.\<close>

theorem convertProjection_short_filter_counterexample:
  "launch_2D 1 1 (convertProjection [[1, 2]] 2 1 1) [[7]] = Some [[1]] \<and>
   launch_2D 2 2 (convertProjection [[1, 2]] 2 1 1) [[7, 7]] = Some [[1, 7]]"
  by (simp add: launch_2D_def convertProjection_def load_2D_def store_2D_def load_def store_def
        upt_rec)

subsection \<open>Filter construction\<close>

lemma filter_length_init_power:
  assumes "0 < det_pixels_column geo"
  shows "filter_length_init geo = 2 * 2 ^ nat \<lceil>log 2 (real (det_pixels_column geo))\<rceil>"
proof -
  let ?n = "det_pixels_column geo"
  let ?c = "\<lceil>log 2 (real ?n)\<rceil>"
  have "0 \<le> log 2 (real ?n)" using assms by simp
  then have c: "0 \<le> ?c" by linarith
  then have "real_of_int ?c = real (nat ?c)" by simp
  then have "2 powr real_of_int ?c = (2::real) ^ nat ?c"
    by (simp add: powr_realpow)
  then have "2 * 2 powr real_of_int ?c = real (2 * 2 ^ nat ?c)" by simp
  then have "nat \<lfloor>2 * 2 powr real_of_int ?c\<rfloor> = 2 * 2 ^ nat ?c"
    by (metis floor_of_nat nat_int)
  then show ?thesis using assms by (simp add: filter_length_init_def)
qed

lemma filter_length_init_covers_column:
  assumes "0 < det_pixels_column geo"
  shows "2 * det_pixels_column geo \<le> filter_length_init geo"
proof -
  let ?n = "det_pixels_column geo"
  let ?c = "\<lceil>log 2 (real ?n)\<rceil>"
  have "0 \<le> log 2 (real ?n)" using assms by simp
  then have c: "0 \<le> ?c" by linarith
  have "real ?n = 2 powr log 2 (real ?n)" using assms by simp
  also have "\<dots> \<le> 2 powr real_of_int ?c" by (simp add: powr_mono)
  also have "\<dots> = 2 ^ nat ?c" using c by (metis of_nat_nat powr_realpow zero_less_numeral)
  finally have "real ?n \<le> real (2 ^ nat ?c)" by simp
  then have "?n \<le> 2 ^ nat ?c" using of_nat_le_iff by blast
  then show ?thesis using assms by (simp add: filter_length_init_power)
qed

text \<open>Claim C1 says that, for every detector geometry, the filter length computed when the
  \<open>Filter\<close> is constructed is a power of two and at least \<open>2 \<cdot> n_h\<close>, \<open>n_h\<close> being the number
  of detector columns. The constructor takes the length from \<open>det_pixels_column\<close>, the number
  of rows: by the two lemmas above, which are about the exact logarithm, the length is
  twice a power of two and at least twice the number of rows, whenever there is a row (the
  single-precision logarithm of the source agrees with the exact one up to \<open>2^21\<close>
  rows). For a detector \<open>1024\<close> pixels wide and \<open>256\<close>
  pixels high the length is \<open>512\<close>: below \<open>2 \<cdot> 1024\<close>, and below the width of a row.\<close>

theorem filter_length_init_wide_detector:
  "filter_length_m
     (Filter_constructor
        \<lparr>det_pixels_row = 1024, det_pixels_column = 256, det_pixel_size_horiz = 1\<rparr> 1) = 512 \<and>
   512 < 2 * det_pixels_row
             \<lparr>det_pixels_row = 1024, det_pixels_column = 256, det_pixel_size_horiz = 1\<rparr> \<and>
   512 < det_pixels_row
           \<lparr>det_pixels_row = 1024, det_pixels_column = 256, det_pixel_size_horiz = 1\<rparr>"
proof -
  have "log 2 (real 256) = real 8"
    using log_pow_cancel [of 2 8] by simp
  then have "\<lceil>log 2 (real 256)\<rceil> = 8" by simp
  then show ?thesis by (simp add: Filter_constructor_def filter_length_init_power)
qed

text \<open>The loop that fills the host buffer of the indices runs while \<open>k \<le> filter_length_\<close>:
  on a buffer of \<open>filter_length_\<close> elements its last write goes to the index
  \<open>filter_length_\<close>, one past the end.\<close>

lemma j_host_buffer_loop_overrun:
  "k \<le> filter_length \<Longrightarrow> length buf = filter_length \<Longrightarrow>
   j_host_buffer_loop filter_length k j buf = Inl (out_of_bounds filter_length)"
proof (induction filter_length k j buf rule: j_host_buffer_loop.induct)
  case (1 filter_length k j buf)
  show ?case
  proof (cases "k = filter_length")
    case True
    then show ?thesis using "1.prems" by (simp add: store_def)
  next
    case False
    with "1.prems" have lt: "k < length buf" by simp
    then have st: "store buf k j = Some (buf[k := j])" by (simp add: store_def)
    have "j_host_buffer_loop filter_length (k + 1) (j + 1) (buf[k := j]) = Inl (out_of_bounds filter_length)"
      using "1.IH" [OF _ st] "1.prems" lt by simp
    then show ?thesis using "1.prems" st by (subst j_host_buffer_loop.simps) simp
  qed
qed

lemma filterProcessor_j_host_buffer_overrun:
  "length buf = filter_length \<Longrightarrow>
   filterProcessor_j_host_buffer filter_length buf = Inl (out_of_bounds filter_length)"
  by (simp add: filterProcessor_j_host_buffer_def Let_def j_host_buffer_loop_overrun
        del: j_host_buffer_loop.simps)

text \<open>Claim C10 says that, for every filter length \<open>L \<ge> 2\<close> that is a power of two, the loop
  of \<open>Filter::filterProcessor\<close> writes the host buffer of \<open>L\<close> elements only at indices
  below \<open>L\<close>, and that the entries \<open>0..L-1\<close> are the consecutive integers from \<open>-(L-2)/2\<close> to
  \<open>L/2\<close>. For \<open>L = 4\<close> the loop writes at the index \<open>4\<close> of the buffer of four elements. On
  a buffer with one more element it runs to its end and shows what it writes: \<open>-1, 0, 1, 2\<close>
  at the indices \<open>0..3\<close>, and \<open>3\<close> at the index \<open>4\<close>.\<close>

theorem filterProcessor_j_host_buffer_writes_past_end:
  "filterProcessor_j_host_buffer 4 [0, 0, 0, 0] = Inl (out_of_bounds 4) \<and>
   filterProcessor_j_host_buffer 4 [0, 0, 0, 0, 0] = Inr [- 1, 0, 1, 2, 3]"
  by (simp add: filterProcessor_j_host_buffer_def store_def signed_divide_int_def)

subsection \<open>The sink stage\<close>

lemma SinkStage_run_loop_paths:
  "SinkStage_run_loop input_queue saved = (c, files) \<Longrightarrow>
   \<forall>f\<in>set saved. fst f = ''/home/ufxray/Schreibtisch/Feldkamp/out.tif'' \<Longrightarrow>
   \<forall>f\<in>set files. fst f = ''/home/ufxray/Schreibtisch/Feldkamp/out.tif''"
proof (induction input_queue arbitrary: saved)
  case Nil
  then show ?case by simp
next
  case (Cons img input_queue)
  show ?case
  proof (cases "Image_valid img")
    case True
    with Cons.prems(1) have
      "SinkStage_run_loop input_queue
         (saved @ [(''/home/ufxray/Schreibtisch/Feldkamp/out.tif'', img)]) = (c, files)"
      by simp
    from Cons.IH [OF this] Cons.prems(2) show ?thesis by simp
  next
    case False
    with Cons.prems show ?thesis by simp
  qed
qed

lemma SinkStage_run_hard_coded_path:
  "SinkStage_run st input_queue = (c, files) \<Longrightarrow>
   \<forall>f\<in>set files. fst f = ''/home/ufxray/Schreibtisch/Feldkamp/out.tif''"
  using SinkStage_run_loop_paths [of input_queue "[]" c files] by (simp add: SinkStage_run_def)

lemma SinkStage_run_ignores_target_dir:
  "SinkStage_run st input_queue = SinkStage_run st' input_queue"
  by (simp add: SinkStage_run_def)

lemma SinkStage_run_on_sentinel:
  "\<not> Image_valid img \<Longrightarrow> SinkStage_run st (img # input_queue) = (returned, [])"
  by (simp add: SinkStage_run_def)

text \<open>Claim C7 says that every valid image the sink receives is written to a file under
  the directory given at construction, named from the configured prefix and the slice
  index as \<open>{prefix}_{slice_index:06d}.{ext}\<close>. \<open>SinkStage::run\<close> passes one fixed path to
  \<open>saveImage\<close> for every image and never reads \<open>target_dir_\<close>; the stage has no prefix. A
  sink constructed for \<open>/data/volume\<close> writes a valid image to
  \<open>/home/ufxray/Schreibtisch/Feldkamp/out.tif\<close>, which is not under that directory and is
  not the name of a slice.\<close>

theorem SinkStage_run_writes_elsewhere:
  "SinkStage_run \<lparr>target_dir_m = ''/data/volume''\<rparr>
     [\<lparr>Image_valid = True, Image_device = 0, Image_data = [[1]]\<rparr>, Image_default] =
     (returned, [(''/home/ufxray/Schreibtisch/Feldkamp/out.tif'',
                  \<lparr>Image_valid = True, Image_device = 0, Image_data = [[1]]\<rparr>)]) \<and>
   ''/home/ufxray/Schreibtisch/Feldkamp/out.tif'' \<noteq> slice_file_name ''/data/volume'' ''vol'' 0 ''tif'' \<and>
   take (length ''/data/volume'') ''/home/ufxray/Schreibtisch/Feldkamp/out.tif'' \<noteq> ''/data/volume''"
  by (simp add: SinkStage_run_def Image_default_def slice_file_name_def)

lemma six_digits_example: "six_digits 42 = ''000042''"
  by (simp add: six_digits_def)

subsection \<open>The driver\<close>

text \<open>Claim C9, amended: when input and output are enabled (\<open>po.enable_io\<close>), the driver
  starts exactly one pipeline for every visible device \<open>0 \<le> d < devices\<close>; every pipeline is
  built on the same task queue and ends in the same sink, the one made from the output path
  and the prefix of the program options; and in every pipeline the stages are connected in
  the order source, preloader, weighting, filter, reconstruction, sink.\<close>

theorem main_launches_per_device:
  assumes "enable_io po"
  shows "length (futures (main po devices)) = nat devices \<and>
         (\<forall>d. 0 \<le> d \<and> d < devices \<longrightarrow>
            futures (main po devices) ! nat d =
              Some \<lparr>task_queue_of = task_queue_address,
                    connect_args = [source_stage, preloader_stage_of 1 5 d, weighting_stage_of 1 d,
                                    filter_stage_of 1 d, reconstruction_stage_of 1 d,
                                    sink_stage_at sink_address],
                    run_args = [source_stage, preloader_stage_of 1 5 d, weighting_stage_of 1 d,
                                filter_stage_of 1 d, reconstruction_stage_of 1 d,
                                sink_stage_at sink_address]\<rparr>) \<and>
         sink_made (main po devices) = Some (output_path po, prefix po)"
proof (intro conjI allI impI)
  show "length (futures (main po devices)) = nat devices"
    using assms by (simp add: main_def)
next
  fix d assume d: "0 \<le> d \<and> d < devices"
  then have "nat d < length [0..devices - 1]" by simp
  moreover have "[0..devices - 1] ! nat d = d" using d by simp
  ultimately show "futures (main po devices) ! nat d =
              Some \<lparr>task_queue_of = task_queue_address,
                    connect_args = [source_stage, preloader_stage_of 1 5 d, weighting_stage_of 1 d,
                                    filter_stage_of 1 d, reconstruction_stage_of 1 d,
                                    sink_stage_at sink_address],
                    run_args = [source_stage, preloader_stage_of 1 5 d, weighting_stage_of 1 d,
                                filter_stage_of 1 d, reconstruction_stage_of 1 d,
                                sink_stage_at sink_address]\<rparr>"
    using assms by (simp add: main_def launch_pipeline_def Let_def)
next
  show "sink_made (main po devices) = Some (output_path po, prefix po)"
    using assms by (simp add: main_def)
qed

theorem main_launches_per_device_witness:
  "enable_io \<lparr>enable_io = True, output_path = ''/data/volume'', prefix = ''vol''\<rparr> \<and>
   futures (main \<lparr>enable_io = True, output_path = ''/data/volume'', prefix = ''vol''\<rparr> 2) =
     [Some \<lparr>task_queue_of = task_queue_address,
            connect_args = [source_stage, preloader_stage_of 1 5 0, weighting_stage_of 1 0,
                            filter_stage_of 1 0, reconstruction_stage_of 1 0,
                            sink_stage_at sink_address],
            run_args = [source_stage, preloader_stage_of 1 5 0, weighting_stage_of 1 0,
                        filter_stage_of 1 0, reconstruction_stage_of 1 0,
                        sink_stage_at sink_address]\<rparr>,
      Some \<lparr>task_queue_of = task_queue_address,
            connect_args = [source_stage, preloader_stage_of 1 5 1, weighting_stage_of 1 1,
                            filter_stage_of 1 1, reconstruction_stage_of 1 1,
                            sink_stage_at sink_address],
            run_args = [source_stage, preloader_stage_of 1 5 1, weighting_stage_of 1 1,
                        filter_stage_of 1 1, reconstruction_stage_of 1 1,
                        sink_stage_at sink_address]\<rparr>] \<and>
   sink_made (main \<lparr>enable_io = True, output_path = ''/data/volume'', prefix = ''vol''\<rparr> 2) =
     Some (''/data/volume'', ''vol'')"
proof -
  let ?po = "\<lparr>enable_io = True, output_path = ''/data/volume'', prefix = ''vol''\<rparr>"
  have io: "enable_io ?po" by simp
  note m = main_launches_per_device [OF io, of 2]
  from m have len: "length (futures (main ?po 2)) = 2" by simp
  from m have e0: "futures (main ?po 2) ! nat 0 = Some \<lparr>task_queue_of = task_queue_address,
            connect_args = [source_stage, preloader_stage_of 1 5 0, weighting_stage_of 1 0,
                            filter_stage_of 1 0, reconstruction_stage_of 1 0,
                            sink_stage_at sink_address],
            run_args = [source_stage, preloader_stage_of 1 5 0, weighting_stage_of 1 0,
                        filter_stage_of 1 0, reconstruction_stage_of 1 0,
                        sink_stage_at sink_address]\<rparr>"
    by (metis zero_less_numeral order_refl)
  from m have e1: "futures (main ?po 2) ! nat 1 = Some \<lparr>task_queue_of = task_queue_address,
            connect_args = [source_stage, preloader_stage_of 1 5 1, weighting_stage_of 1 1,
                            filter_stage_of 1 1, reconstruction_stage_of 1 1,
                            sink_stage_at sink_address],
            run_args = [source_stage, preloader_stage_of 1 5 1, weighting_stage_of 1 1,
                        filter_stage_of 1 1, reconstruction_stage_of 1 1,
                        sink_stage_at sink_address]\<rparr>"
    by (metis zero_le_one one_less_numeral_iff semiring_norm(76))
  have "futures (main ?po 2) = [futures (main ?po 2) ! 0, futures (main ?po 2) ! 1]"
    using len by (auto simp: list_eq_iff_nth_eq less_Suc_eq numeral_eq_Suc)
  with e0 e1 m io show ?thesis by simp
qed

text \<open>Claim C9 as stated fails when \<open>po.enable_io\<close> is false: the driver then starts no
  pipeline, whatever the number of devices.\<close>

theorem main_without_io_counterexample:
  "futures (main \<lparr>enable_io = False, output_path = ''/data/volume'', prefix = ''vol''\<rparr> 2) = []"
  by (simp add: main_def)

subsection \<open>The preloader stage\<close>

lemma outputs_append: "outputs (tr @ tr') = outputs tr @ outputs tr'"
  by (induction tr rule: outputs.induct) simp_all

lemma outputs_called: "outputs (map called cs) = []"
  by (induction cs) simp_all

lemma cuda_calls_Inr:
  "cuda_calls fault cs tr = Inr tr' \<Longrightarrow> tr' = tr @ map called cs"
proof (induction cs arbitrary: tr)
  case Nil
  then show ?case by simp
next
  case (Cons c cs)
  from Cons.prems have "cuda_calls fault cs (tr @ [called c]) = Inr tr'"
    by (simp split: option.splits)
  from Cons.IH [OF this] show ?case by simp
qed

lemma cuda_calls_Inl:
  "cuda_calls fault cs tr = Inl (e, tr') \<Longrightarrow>
   outputs tr' = outputs tr \<and> fault (length tr') = Some e"
proof (induction cs arbitrary: tr)
  case Nil
  then show ?case by simp
next
  case (Cons c cs)
  show ?case
  proof (cases "fault (length tr)")
    case None
    with Cons.prems have "cuda_calls fault cs (tr @ [called c]) = Inl (e, tr')" by simp
    from Cons.IH [OF this] show ?thesis by (simp add: outputs_append)
  next
    case (Some e')
    with Cons.prems show ?thesis by simp
  qed
qed

lemma cuda_calls_no_fault:
  "\<forall>n. length tr \<le> n \<and> n < length tr + length cs \<longrightarrow> fault n = None \<Longrightarrow>
   cuda_calls fault cs tr = Inr (tr @ map called cs)"
proof (induction cs arbitrary: tr)
  case Nil
  then show ?case by simp
next
  case (Cons c cs)
  have "fault (length tr) = None" using Cons.prems by simp
  moreover have "\<forall>n. length (tr @ [called c]) \<le> n \<and> n < length (tr @ [called c]) + length cs
                    \<longrightarrow> fault n = None"
    using Cons.prems by simp
  from Cons.IH [OF this] have "cuda_calls fault cs (tr @ [called c]) = Inr ((tr @ [called c]) @ map called cs)" .
  ultimately show ?case by simp
qed

lemma upload_Inr:
  "upload fault p tr = Inr tr' \<Longrightarrow>
   \<exists>q. outputs tr' = outputs tr @ [q] \<and> valid q"
  by (auto simp: upload_def Let_def outputs_append outputs_called
           dest!: cuda_calls_Inr split: sum.splits)

lemma upload_Inl:
  "upload fault p tr = Inl (e, tr') \<Longrightarrow> outputs tr' = outputs tr \<and> fault (length tr') = Some e"
  by (auto simp: upload_def Let_def dest: cuda_calls_Inl split: sum.splits)

lemma run_loop_Inl:
  "run_loop fault inputs tr = Inl (e, tr') \<Longrightarrow> \<forall>q\<in>set (outputs tr). valid q \<Longrightarrow>
   (\<forall>q\<in>set (outputs tr'). valid q) \<and> fault (length tr') = Some e"
proof (induction inputs arbitrary: tr)
  case Nil
  then show ?case by simp
next
  case (Cons p inputs)
  from Cons.prems(1) have v: "valid p" by (auto split: if_splits)
  show ?case
  proof (cases "upload fault p tr")
    case (Inl x)
    with Cons.prems(1) v have "upload fault p tr = Inl (e, tr')" by simp
    from upload_Inl [OF this] Cons.prems(2) show ?thesis by simp
  next
    case (Inr tr1)
    with Cons.prems(1) v have r: "run_loop fault inputs tr1 = Inl (e, tr')" by simp
    from upload_Inr [OF Inr] Cons.prems(2) have "\<forall>q\<in>set (outputs tr1). valid q" by auto
    from Cons.IH [OF r this] show ?thesis .
  qed
qed

lemma run_loop_to_sentinel:
  "\<forall>p\<in>set ps. valid p \<Longrightarrow> \<not> valid s \<Longrightarrow> run_loop fault (ps @ s # rest) tr = Inr (x, tr') \<Longrightarrow>
   x = break \<and> (\<exists>ys. outputs tr' = outputs tr @ ys \<and> length ys = length ps \<and> (\<forall>y\<in>set ys. valid y))"
proof (induction ps arbitrary: tr)
  case Nil
  then show ?case by simp
next
  case (Cons p ps)
  from Cons.prems(1) have v: "valid p" by simp
  show ?case
  proof (cases "upload fault p tr")
    case (Inl e)
    with Cons.prems(3) v show ?thesis by simp
  next
    case (Inr tr1)
    with Cons.prems(3) v have r: "run_loop fault (ps @ s # rest) tr1 = Inr (x, tr')" by simp
    from Cons.prems(1) have "\<forall>p\<in>set ps. valid p" by simp
    from Cons.IH [OF this Cons.prems(2) r] obtain ys where
      ys: "x = break" "outputs tr' = outputs tr1 @ ys" "length ys = length ps" "\<forall>y\<in>set ys. valid y"
      by blast
    from upload_Inr [OF Inr] obtain q where q: "outputs tr1 = outputs tr @ [q]" "valid q" by blast
    have "outputs tr' = outputs tr @ (q # ys)" using ys(2) q(1) by simp
    moreover have "length (q # ys) = length (p # ps)" using ys(3) by simp
    moreover have "\<forall>y\<in>set (q # ys). valid y" using ys(4) q(2) by simp
    ultimately show ?thesis using ys(1) by blast
  qed
qed


lemma run_loop_uploads_valid:
  assumes "valid p"
    and "\<forall>n. length tr \<le> n \<and> n < length tr + 5 \<longrightarrow> fault n = None"
  shows "run_loop fault (p # inputs) tr =
           run_loop fault inputs
             (tr @ [called (allocate_smart (width p) (height p) (device_ptr (length tr))),
                    called (create_concurrent_stream (concurrent_stream (length tr + 1))),
                    called (fill async (device_ptr (length tr)) 0
                              (concurrent_stream (length tr + 1)) (width p) (height p)),
                    called (copy async (device_ptr (length tr)) (ptr p)
                              (concurrent_stream (length tr + 1)) (width p) (height p)),
                    called (synchronize_stream (concurrent_stream (length tr + 1))),
                    pushed \<lparr>ptr = device_ptr (length tr), width = width p, height = height p,
                            idx = idx p, phi = phi p, valid = True,
                            stream = concurrent_stream (length tr + 1)\<rparr>]) \<and>
         concurrent_stream (length tr + 1) \<noteq> default_stream"
proof -
  let ?cs = "upload_calls p (device_ptr (length tr)) (concurrent_stream (length tr + 1))"
  have "length ?cs = 5" by (simp add: upload_calls_def)
  with assms(2) have "\<forall>n. length tr \<le> n \<and> n < length tr + length ?cs \<longrightarrow> fault n = None"
    by simp
  from cuda_calls_no_fault [OF this]
  have "cuda_calls fault ?cs tr = Inr (tr @ map called ?cs)" .
  then show ?thesis using assms(1) by (simp add: upload_def Let_def upload_calls_def)
qed

lemma cuda_calls_extends:
  "cuda_calls fault cs tr = Inl (e, tr') \<Longrightarrow> \<exists>ext. tr' = tr @ ext"
proof (induction cs arbitrary: tr)
  case Nil
  then show ?case by simp
next
  case (Cons c cs)
  show ?case
  proof (cases "fault (length tr)")
    case None
    with Cons.prems have "cuda_calls fault cs (tr @ [called c]) = Inl (e, tr')" by simp
    from Cons.IH [OF this] show ?thesis by auto
  next
    case (Some e')
    with Cons.prems show ?thesis by simp
  qed
qed

lemma upload_extends:
  "upload fault p tr = Inl (e, tr') \<Longrightarrow> \<exists>ext. tr' = tr @ ext"
  "upload fault p tr = Inr tr'' \<Longrightarrow> \<exists>ext. tr'' = tr @ ext"
  by (auto simp: upload_def Let_def dest: cuda_calls_extends dest!: cuda_calls_Inr split: sum.splits)

lemma run_loop_extends:
  "run_loop fault inputs tr = Inl (e, tr') \<or> run_loop fault inputs tr = Inr (x, tr') \<Longrightarrow>
   \<exists>ext. tr' = tr @ ext"
proof (induction inputs arbitrary: tr)
  case Nil
  then show ?case by simp
next
  case (Cons p inputs)
  show ?case
  proof (cases "valid p")
    case False
    with Cons.prems show ?thesis by simp
  next
    case True
    show ?thesis
    proof (cases "upload fault p tr")
      case (Inl a)
      with Cons.prems True have "upload fault p tr = Inl (e, tr')" by auto
      from upload_extends(1) [OF this] show ?thesis .
    next
      case (Inr tr1)
      with Cons.prems True have
        "run_loop fault inputs tr1 = Inl (e, tr') \<or> run_loop fault inputs tr1 = Inr (x, tr')"
        by simp
      from Cons.IH [OF this] obtain ext where "tr' = tr1 @ ext" by blast
      moreover from upload_extends(2) [OF Inr] obtain ext1 where "tr1 = tr @ ext1" by blast
      ultimately show ?thesis by simp
    qed
  qed
qed

lemma run_loop_uploads_all:
  "\<forall>q\<in>set ps. valid q \<Longrightarrow>
   \<forall>n. length tr \<le> n \<and> n < length tr + 6 * length ps \<longrightarrow> fault n = None \<Longrightarrow>
   \<exists>evs. run_loop fault (ps @ rest) tr = run_loop fault rest (tr @ evs) \<and>
         length evs = 6 * length ps \<and> length (outputs evs) = length ps \<and>
         (\<forall>q\<in>set (outputs evs). valid q)"
proof (induction ps arbitrary: tr)
  case Nil
  then show ?case by simp
next
  case (Cons p ps)
  from Cons.prems(1) have v: "valid p" and vs: "\<forall>q\<in>set ps. valid q" by simp_all
  have w: "\<forall>n. length tr \<le> n \<and> n < length tr + 5 \<longrightarrow> fault n = None"
    using Cons.prems(2) by simp
  let ?six = "[called (allocate_smart (width p) (height p) (device_ptr (length tr))),
               called (create_concurrent_stream (concurrent_stream (length tr + 1))),
               called (fill async (device_ptr (length tr)) 0
                         (concurrent_stream (length tr + 1)) (width p) (height p)),
               called (copy async (device_ptr (length tr)) (ptr p)
                         (concurrent_stream (length tr + 1)) (width p) (height p)),
               called (synchronize_stream (concurrent_stream (length tr + 1))),
               pushed \<lparr>ptr = device_ptr (length tr), width = width p, height = height p,
                       idx = idx p, phi = phi p, valid = True,
                       stream = concurrent_stream (length tr + 1)\<rparr>]"
  from run_loop_uploads_valid [OF v w, of "ps @ rest"]
  have step: "run_loop fault ((p # ps) @ rest) tr = run_loop fault (ps @ rest) (tr @ ?six)"
    by simp
  have "\<forall>n. length (tr @ ?six) \<le> n \<and> n < length (tr @ ?six) + 6 * length ps \<longrightarrow> fault n = None"
    using Cons.prems(2) by simp
  from Cons.IH [OF vs this] obtain evs where evs:
    "run_loop fault (ps @ rest) (tr @ ?six) = run_loop fault rest ((tr @ ?six) @ evs)"
    "length evs = 6 * length ps" "length (outputs evs) = length ps"
    "\<forall>q\<in>set (outputs evs). valid q"
    by blast
  have "run_loop fault ((p # ps) @ rest) tr = run_loop fault rest (tr @ (?six @ evs))"
    using step evs(1) by simp
  moreover have "length (?six @ evs) = 6 * length (p # ps)" using evs(2) by simp
  moreover have "length (outputs (?six @ evs)) = length (p # ps)" using evs(3) by simp
  moreover have "\<forall>q\<in>set (outputs (?six @ evs)). valid q" using evs(4) by simp
  ultimately show ?case by blast
qed

lemma preloader_stage_run_extends:
  assumes "fault 0 = None"
    and "run_loop fault inputs [called (set_device (device_m st))] = run_loop fault rest tr"
  shows "\<exists>c ext. preloader_stage_run st fault inputs = (c, tr @ ext)"
proof (cases "run_loop fault rest tr")
  case (Inl a)
  obtain e tr' where a: "a = (e, tr')" by (cases a)
  from run_loop_extends [of fault rest tr e tr'] Inl a obtain ext where "tr' = tr @ ext" by auto
  with Inl a assms show ?thesis
    by (simp add: preloader_stage_run_def preloader_stage_try_def)
next
  case (Inr b)
  obtain x tr' where b: "b = (x, tr')" by (cases b)
  from run_loop_extends [of fault rest tr _ tr' x] Inr b obtain ext where "tr' = tr @ ext" by auto
  with Inr b assms show ?thesis
    by (cases x) (simp_all add: preloader_stage_run_def preloader_stage_try_def)
qed


text \<open>Claim C8. For every valid host projection it receives, the preloader takes a 2-D
  device buffer of the projection's width and height from its pool, makes a concurrent
  stream, which is not the default stream, fills the buffer with zero and then copies the
  host pixels into it, both asynchronously on that stream, synchronizes the stream once,
  and only then pushes the projection: with the device buffer and the stream, and with the
  width, height, index and angle it came with. Stated of the worker: when \<open>p\<close> is received
  after the valid projections \<open>ps\<close>, and the runtime throws at none of the calls up to the
  synchronization for \<open>p\<close>, the trace of \<open>preloader_stage_run\<close> holds, after the
  \<open>6 \<cdot> length ps + 1\<close> events for \<open>set_device\<close> and for \<open>ps\<close>, these six events for \<open>p\<close>, in
  this order, whatever is received after \<open>p\<close> and however the run ends.\<close>

theorem preloader_uploads_projection:
  assumes "\<forall>q\<in>set ps. valid q" and "valid p"
    and "\<forall>n<6 * length ps + 6. fault n = None"
  shows "\<exists>c tr tr'.
           preloader_stage_run st fault (ps @ p # rest) =
             (c, tr @
                 [called (allocate_smart (width p) (height p) (device_ptr (6 * length ps + 1))),
                  called (create_concurrent_stream (concurrent_stream (6 * length ps + 2))),
                  called (fill async (device_ptr (6 * length ps + 1)) 0
                            (concurrent_stream (6 * length ps + 2)) (width p) (height p)),
                  called (copy async (device_ptr (6 * length ps + 1)) (ptr p)
                            (concurrent_stream (6 * length ps + 2)) (width p) (height p)),
                  called (synchronize_stream (concurrent_stream (6 * length ps + 2))),
                  pushed \<lparr>ptr = device_ptr (6 * length ps + 1), width = width p,
                          height = height p, idx = idx p, phi = phi p, valid = True,
                          stream = concurrent_stream (6 * length ps + 2)\<rparr>] @ tr') \<and>
           length tr = 6 * length ps + 1 \<and> length (outputs tr) = length ps \<and>
           concurrent_stream (6 * length ps + 2) \<noteq> default_stream"
proof -
  let ?tr0 = "[called (set_device (device_m st))]"
  have f0: "fault 0 = None" using assms(3) by simp
  have "\<forall>n. length ?tr0 \<le> n \<and> n < length ?tr0 + 6 * length ps \<longrightarrow> fault n = None"
    using assms(3) by simp
  from run_loop_uploads_all [OF assms(1) this, of "p # rest"] obtain evs where evs:
    "run_loop fault (ps @ p # rest) ?tr0 = run_loop fault (p # rest) (?tr0 @ evs)"
    "length evs = 6 * length ps" "length (outputs evs) = length ps"
    by blast
  let ?tr = "?tr0 @ evs"
  have len: "length ?tr = 6 * length ps + 1" using evs(2) by simp
  have "\<forall>n. length ?tr \<le> n \<and> n < length ?tr + 5 \<longrightarrow> fault n = None"
    using assms(3) len by simp
  from run_loop_uploads_valid [OF assms(2) this, of rest]
  have step: "run_loop fault (p # rest) ?tr =
     run_loop fault rest
       (?tr @ [called (allocate_smart (width p) (height p) (device_ptr (6 * length ps + 1))),
                  called (create_concurrent_stream (concurrent_stream (6 * length ps + 2))),
                  called (fill async (device_ptr (6 * length ps + 1)) 0
                            (concurrent_stream (6 * length ps + 2)) (width p) (height p)),
                  called (copy async (device_ptr (6 * length ps + 1)) (ptr p)
                            (concurrent_stream (6 * length ps + 2)) (width p) (height p)),
                  called (synchronize_stream (concurrent_stream (6 * length ps + 2))),
                  pushed \<lparr>ptr = device_ptr (6 * length ps + 1), width = width p,
                          height = height p, idx = idx p, phi = phi p, valid = True,
                          stream = concurrent_stream (6 * length ps + 2)\<rparr>])"
    using evs(2) by simp
  let ?six = "[called (allocate_smart (width p) (height p) (device_ptr (6 * length ps + 1))),
                  called (create_concurrent_stream (concurrent_stream (6 * length ps + 2))),
                  called (fill async (device_ptr (6 * length ps + 1)) 0
                            (concurrent_stream (6 * length ps + 2)) (width p) (height p)),
                  called (copy async (device_ptr (6 * length ps + 1)) (ptr p)
                            (concurrent_stream (6 * length ps + 2)) (width p) (height p)),
                  called (synchronize_stream (concurrent_stream (6 * length ps + 2))),
                  pushed \<lparr>ptr = device_ptr (6 * length ps + 1), width = width p,
                          height = height p, idx = idx p, phi = phi p, valid = True,
                          stream = concurrent_stream (6 * length ps + 2)\<rparr>]"
  have eq: "run_loop fault (ps @ p # rest) [called (set_device (device_m st))] =
              run_loop fault rest (?tr @ ?six)"
    using evs(1) step by simp
  from preloader_stage_run_extends [of fault "ps @ p # rest" st rest "?tr @ ?six", OF f0 eq]
  obtain c ext where
    "preloader_stage_run st fault (ps @ p # rest) = (c, (?tr @ ?six) @ ext)"
    by blast
  moreover have "length (outputs ?tr) = length ps" using evs(3) by simp
  ultimately show ?thesis using len by (intro exI [of _ c] exI [of _ ?tr] exI [of _ ext]) simp
qed

theorem preloader_uploads_projection_witness:
  "valid \<lparr>ptr = host_ptr 0, width = 2, height = 3, idx = 7, phi = 1, valid = True,
          stream = default_stream\<rparr> \<and>
   no_fault 0 = None \<and> no_fault 1 = None \<and> no_fault 2 = None \<and> no_fault 3 = None \<and>
   no_fault 4 = None \<and> no_fault 5 = None \<and>
   (\<exists>c tr tr'.
      preloader_stage_run \<lparr>device_m = 0, limit_m = 1\<rparr> no_fault
        [\<lparr>ptr = host_ptr 0, width = 2, height = 3, idx = 7, phi = 1, valid = True,
          stream = default_stream\<rparr>] =
        (c, tr @ [called (allocate_smart 2 3 (device_ptr 1)),
                  called (create_concurrent_stream (concurrent_stream 2)),
                  called (fill async (device_ptr 1) 0 (concurrent_stream 2) 2 3),
                  called (copy async (device_ptr 1) (host_ptr 0) (concurrent_stream 2) 2 3),
                  called (synchronize_stream (concurrent_stream 2)),
                  pushed \<lparr>ptr = device_ptr 1, width = 2, height = 3, idx = 7, phi = 1,
                          valid = True, stream = concurrent_stream 2\<rparr>] @ tr') \<and>
      length tr = 1 \<and> length (outputs tr) = 0) \<and>
   preloader_stage_run \<lparr>device_m = 0, limit_m = 1\<rparr> no_fault
     [\<lparr>ptr = host_ptr 0, width = 2, height = 3, idx = 7, phi = 1, valid = True,
       stream = default_stream\<rparr>] =
     (blocked_on_input,
      [called (set_device 0),
       called (allocate_smart 2 3 (device_ptr 1)),
       called (create_concurrent_stream (concurrent_stream 2)),
       called (fill async (device_ptr 1) 0 (concurrent_stream 2) 2 3),
       called (copy async (device_ptr 1) (host_ptr 0) (concurrent_stream 2) 2 3),
       called (synchronize_stream (concurrent_stream 2)),
       pushed \<lparr>ptr = device_ptr 1, width = 2, height = 3, idx = 7, phi = 1, valid = True,
               stream = concurrent_stream 2\<rparr>])"
proof -
  let ?p = "\<lparr>ptr = host_ptr 0, width = 2, height = 3, idx = 7, phi = 1, valid = True,
             stream = default_stream\<rparr>"
  let ?st = "\<lparr>device_m = 0, limit_m = 1\<rparr>"
  have v0: "\<forall>q\<in>set []. valid q" by simp
  have v: "valid ?p" by simp
  have f: "\<forall>n<6 * length ([] :: projection list) + 6. no_fault n = None"
    by (simp add: no_fault_def)
  have r: "\<exists>c tr tr'.
      preloader_stage_run ?st no_fault [?p] =
        (c, tr @ [called (allocate_smart 2 3 (device_ptr 1)),
                  called (create_concurrent_stream (concurrent_stream 2)),
                  called (fill async (device_ptr 1) 0 (concurrent_stream 2) 2 3),
                  called (copy async (device_ptr 1) (host_ptr 0) (concurrent_stream 2) 2 3),
                  called (synchronize_stream (concurrent_stream 2)),
                  pushed \<lparr>ptr = device_ptr 1, width = 2, height = 3, idx = 7, phi = 1,
                          valid = True, stream = concurrent_stream 2\<rparr>] @ tr') \<and>
      length tr = 1 \<and> length (outputs tr) = 0"
    using preloader_uploads_projection [OF v0 v f, of ?st "[]"] by (simp add: numeral_2_eq_2)
  have e: "preloader_stage_run ?st no_fault [?p] =
     (blocked_on_input,
      [called (set_device 0),
       called (allocate_smart 2 3 (device_ptr 1)),
       called (create_concurrent_stream (concurrent_stream 2)),
       called (fill async (device_ptr 1) 0 (concurrent_stream 2) 2 3),
       called (copy async (device_ptr 1) (host_ptr 0) (concurrent_stream 2) 2 3),
       called (synchronize_stream (concurrent_stream 2)),
       pushed \<lparr>ptr = device_ptr 1, width = 2, height = 3, idx = 7, phi = 1, valid = True,
               stream = concurrent_stream 2\<rparr>])"
    by (simp add: preloader_stage_run_def preloader_stage_try_def upload_def upload_calls_def
          no_fault_def Let_def)
  have n: "no_fault 0 = None \<and> no_fault 1 = None \<and> no_fault 2 = None \<and> no_fault 3 = None \<and>
           no_fault 4 = None \<and> no_fault 5 = None" by (simp add: no_fault_def)
  from v n r e show ?thesis by blast
qed

subsection \<open>Errors of the CUDA runtime in the preloader\<close>

lemma preloader_stage_try_Inl:
  assumes "preloader_stage_try st fault inputs = Inl (e, tr)"
  shows "(\<forall>q\<in>set (outputs tr). valid q) \<and> fault (length tr) = Some e"
proof (cases "cuda_calls fault [set_device (device_m st)] []")
  case (Inl x)
  with assms have "cuda_calls fault [set_device (device_m st)] [] = Inl (e, tr)"
    by (simp add: preloader_stage_try_def)
  from cuda_calls_Inl [OF this] show ?thesis by simp
next
  case (Inr tr0)
  from cuda_calls_Inr [OF Inr] have o: "\<forall>q\<in>set (outputs tr0). valid q" by simp
  from assms Inr have "run_loop fault inputs tr0 = Inl (e, tr)"
    by (auto simp: preloader_stage_try_def split: sum.splits loop_exit.splits)
  from run_loop_Inl [OF this o] show ?thesis .
qed

text \<open>Claim C3, amended: when a wrapper of the CUDA runtime throws a \<open>bad_alloc\<close>, an
  \<open>invalid_argument\<close> or a \<open>runtime_error\<close> in the preloader's worker, the worker logs the
  cause at severity \<open>fatal\<close> and throws a \<open>stage_runtime_error\<close>. It pushes nothing on that
  path, and no sentinel: every item it has pushed is a valid projection.\<close>

theorem preloader_error_logged_and_rethrown:
  assumes "preloader_stage_try st fault inputs = Inl (e, tr)"
  shows "fault (length tr) = Some e \<and>
         preloader_stage_run st fault inputs =
           (threw_stage_runtime_error, tr @ [logged fatal (fatal_message e)]) \<and>
         (\<forall>q\<in>set (outputs (tr @ [logged fatal (fatal_message e)])). valid q)"
  using preloader_stage_try_Inl [OF assms] assms
  by (simp add: preloader_stage_run_def outputs_append)

theorem preloader_error_logged_and_rethrown_witness:
  "preloader_stage_try \<lparr>device_m = 0, limit_m = 1\<rparr> (fault_at 5 runtime_error)
     [\<lparr>ptr = host_ptr 0, width = 2, height = 3, idx = 7, phi = 1, valid = True,
       stream = default_stream\<rparr>] =
     Inl (runtime_error,
          [called (set_device 0),
           called (allocate_smart 2 3 (device_ptr 1)),
           called (create_concurrent_stream (concurrent_stream 2)),
           called (fill async (device_ptr 1) 0 (concurrent_stream 2) 2 3),
           called (copy async (device_ptr 1) (host_ptr 0) (concurrent_stream 2) 2 3)]) \<and>
   preloader_stage_run \<lparr>device_m = 0, limit_m = 1\<rparr> (fault_at 5 runtime_error)
     [\<lparr>ptr = host_ptr 0, width = 2, height = 3, idx = 7, phi = 1, valid = True,
       stream = default_stream\<rparr>] =
     (threw_stage_runtime_error,
      [called (set_device 0),
       called (allocate_smart 2 3 (device_ptr 1)),
       called (create_concurrent_stream (concurrent_stream 2)),
       called (fill async (device_ptr 1) 0 (concurrent_stream 2) 2 3),
       called (copy async (device_ptr 1) (host_ptr 0) (concurrent_stream 2) 2 3),
       logged fatal ''preloader_stage::run() caused a CUDA runtime error: ''])"
proof -
  have t: "preloader_stage_try \<lparr>device_m = 0, limit_m = 1\<rparr> (fault_at 5 runtime_error)
     [\<lparr>ptr = host_ptr 0, width = 2, height = 3, idx = 7, phi = 1, valid = True,
       stream = default_stream\<rparr>] =
     Inl (runtime_error,
          [called (set_device 0),
           called (allocate_smart 2 3 (device_ptr 1)),
           called (create_concurrent_stream (concurrent_stream 2)),
           called (fill async (device_ptr 1) 0 (concurrent_stream 2) 2 3),
           called (copy async (device_ptr 1) (host_ptr 0) (concurrent_stream 2) 2 3)])"
    by (simp add: preloader_stage_try_def upload_def upload_calls_def fault_at_def no_fault_def
          Let_def)
  from preloader_error_logged_and_rethrown [OF t] t show ?thesis
    by (simp add: fatal_message_def)
qed

text \<open>Claim C3 as stated has the worker push the sentinel before it throws. When the
  allocation for the first projection fails, the worker has called \<open>set_device\<close>, logs, and
  throws: it pushes nothing.\<close>

theorem preloader_error_no_sentinel_counterexample:
  "preloader_stage_run \<lparr>device_m = 0, limit_m = 1\<rparr> (fault_at 1 bad_alloc)
     [\<lparr>ptr = host_ptr 0, width = 2, height = 3, idx = 7, phi = 1, valid = True,
       stream = default_stream\<rparr>] =
     (threw_stage_runtime_error,
      [called (set_device 0),
       logged fatal ''preloader_stage::run() encountered a bad_alloc: '']) \<and>
   outputs [called (set_device 0),
            logged fatal ''preloader_stage::run() encountered a bad_alloc: ''] = []"
  by (simp add: preloader_stage_run_def preloader_stage_try_def upload_def upload_calls_def
        fault_at_def no_fault_def fatal_message_def Let_def)

subsection \<open>The poison pill\<close>


text \<open>A thread that has been joined is not joinable: a second \<open>finish\<close> throws at the
  first thread of the vector, and pushes nothing.\<close>

lemma join_threads_not_joinable:
  "thread_state t = joined \<Longrightarrow> join_threads processor (t # ts) results = Inl system_error"
  by simp

lemma Filter_process_second_pill:
  assumes "\<not> Image_valid img" and "processor_threads_m f = t # ts" and "thread_state t = joined"
  shows "Filter_process processor f img = Inl system_error"
  using assms by (simp add: Filter_process_def Filter_finish_def)

lemma Filter_process_valid_spawns:
  assumes "Image_valid img"
  shows "\<exists>f'. Filter_process processor f img = Inr f' \<and> results_m f' = results_m f \<and>
         processor_threads_m f' =
           processor_threads_m f @
             (if 0 \<le> Image_device img \<and> Image_device img < devices_m f
              then [\<lparr>thread_img = img, thread_device = Image_device img, thread_state = running\<rparr>]
              else [])"
proof -
  let ?step = "\<lambda>f' i. if Image_device img = i
                        then f'\<lparr>processor_threads_m :=
                                  processor_threads_m f' @
                                    [\<lparr>thread_img = img, thread_device = i,
                                      thread_state = running\<rparr>]\<rparr>
                        else f'"
  have fold: "results_m (foldl ?step g ds) = results_m g \<and>
              processor_threads_m (foldl ?step g ds) =
                processor_threads_m g @
                  map (\<lambda>i. \<lparr>thread_img = img, thread_device = i, thread_state = running\<rparr>)
                    (filter (\<lambda>i. Image_device img = i) ds)"
    for g :: Filter and ds
    by (induction ds arbitrary: g) simp_all
  have "filter (\<lambda>i. Image_device img = i) [0..devices_m f - 1] =
          (if 0 \<le> Image_device img \<and> Image_device img < devices_m f then [Image_device img] else [])"
  proof (cases "0 \<le> Image_device img \<and> Image_device img < devices_m f")
    case True
    let ?d = "Image_device img"
    have "[0..devices_m f - 1] = [0..?d - 1] @ ?d # [?d + 1..devices_m f - 1]"
      using True upto_split3 [of 0 ?d "devices_m f - 1"] by simp
    moreover have "filter (\<lambda>i. ?d = i) [0..?d - 1] = []" by (auto simp: filter_empty_conv)
    moreover have "filter (\<lambda>i. ?d = i) [?d + 1..devices_m f - 1] = []" by (auto simp: filter_empty_conv)
    ultimately show ?thesis using True by simp
  next
    case False
    then have "filter (\<lambda>i. Image_device img = i) [0..devices_m f - 1] = []"
      by (auto simp: filter_empty_conv)
    with False show ?thesis by simp
  qed
  with fold [of f "[0..devices_m f - 1]"] assms show ?thesis
    by (simp add: Filter_process_def)
qed





end
